theory Spec2Isabelle
  imports Main
begin

section \<open>Strings and maps of the Qt library\<close>

text \<open>
  The analyzer works on \<^verbatim>\<open>QString\<close> values. A string is a list of characters; the
  operations below are the ones the analyzer and the lexer call. They belong to Qt, not
  to the repository, and are written out from Qt's documented behaviour.
\<close>

text \<open>\<^verbatim>\<open>QString::toLower\<close>, on the Latin-1 range.\<close>

definition toLower_char :: "char \<Rightarrow> char" where
  "toLower_char c =
     (let n = (of_char c :: nat) in
      if 65 \<le> n \<and> n \<le> 90 then char_of (n + 32)
      else if 192 \<le> n \<and> n \<le> 222 \<and> n \<noteq> 215 then char_of (n + 32)
      else c)"

definition toLower :: "string \<Rightarrow> string" where
  "toLower s = map toLower_char s"

text \<open>\<^verbatim>\<open>QString::startsWith\<close> and \<^verbatim>\<open>QString::contains\<close>.\<close>

fun startsWith :: "string \<Rightarrow> string \<Rightarrow> bool" where
  "startsWith s [] = True"
| "startsWith [] (p # ps) = False"
| "startsWith (c # cs) (p # ps) = (c = p \<and> startsWith cs ps)"

fun contains :: "string \<Rightarrow> string \<Rightarrow> bool" where
  "contains [] sub = (sub = [])"
| "contains (c # cs) sub = (startsWith (c # cs) sub \<or> contains cs sub)"

text \<open>
  \<^verbatim>\<open>QString::replace(before, after)\<close>: every occurrence of the first string, found
  from left to right, is replaced by the second; the text put in is not searched again.
  With an empty first string Qt puts the second in front of every character and at the
  end.
\<close>

function replace :: "string \<Rightarrow> string \<Rightarrow> string \<Rightarrow> string" where
  "replace s sBefore sAfter =
     (if sBefore = [] then sAfter @ concat (map (\<lambda>c. c # sAfter) s)
      else case s of
        [] \<Rightarrow> []
      | c # cs \<Rightarrow>
          if startsWith s sBefore
          then sAfter @ replace (drop (length sBefore) s) sBefore sAfter
          else c # replace cs sBefore sAfter)"
  by pat_completeness auto
termination
  by (relation "measure (\<lambda>(s, sBefore, sAfter). length s)") auto

declare replace.simps [simp del]

text \<open>\<^verbatim>\<open>QString::split(",")\<close>: the parts between the commas, empty parts kept.\<close>

fun split_comma :: "string \<Rightarrow> string \<Rightarrow> string list" where
  "split_comma acc [] = [rev acc]"
| "split_comma acc (c # cs) =
     (if c = CHR '','' then rev acc # split_comma [] cs else split_comma (c # acc) cs)"

definition split :: "string \<Rightarrow> string list" where
  "split s = split_comma [] s"

text \<open>
  \<^verbatim>\<open>QString::toInt()\<close> with its default base 10: white space around the number is
  skipped, a sign may stand in front of the digits, the value must fit a 32-bit
  \<^verbatim>\<open>int\<close>; every other string converts to 0.
\<close>

definition isSpace :: "char \<Rightarrow> bool" where
  "isSpace c = (let n = (of_char c :: nat) in (9 \<le> n \<and> n \<le> 13) \<or> n = 32)"

definition isDigitChar :: "char \<Rightarrow> bool" where
  "isDigitChar c = (let n = (of_char c :: nat) in 48 \<le> n \<and> n \<le> 57)"

definition trimmed :: "string \<Rightarrow> string" where
  "trimmed s = rev (dropWhile isSpace (rev (dropWhile isSpace s)))"

definition digitsValue :: "string \<Rightarrow> int" where
  "digitsValue ds = foldl (\<lambda>acc c. acc * 10 + (int (of_char c) - 48)) 0 ds"

definition toInt :: "string \<Rightarrow> int" where
  "toInt s =
     (let t = trimmed s;
          neg = (t \<noteq> [] \<and> hd t = CHR ''-'');
          ds = (if t \<noteq> [] \<and> (hd t = CHR ''-'' \<or> hd t = CHR ''+'') then tl t else t);
          v = (if neg then - digitsValue ds else digitsValue ds)
      in if ds \<noteq> [] \<and> list_all isDigitChar ds \<and> - 2147483648 \<le> v \<and> v \<le> 2147483647
         then v else 0)"

text \<open>
  A \<^verbatim>\<open>QMap<QString, T>\<close> is kept as the list of its entries in the order in which
  \<^verbatim>\<open>keys()\<close> lists them: ascending by key, each key once.
\<close>

fun qstring_less :: "string \<Rightarrow> string \<Rightarrow> bool" where
  "qstring_less [] [] = False"
| "qstring_less [] (y # ys) = True"
| "qstring_less (x # xs) [] = False"
| "qstring_less (x # xs) (y # ys) =
     ((of_char x :: nat) < of_char y \<or> (x = y \<and> qstring_less xs ys))"

fun qmap_insert :: "string \<Rightarrow> 'v \<Rightarrow> (string \<times> 'v) list \<Rightarrow> (string \<times> 'v) list" where
  "qmap_insert k v [] = [(k, v)]"
| "qmap_insert k v ((k', v') # m) =
     (if k = k' then (k, v) # m
      else if qstring_less k k' then (k, v) # (k', v') # m
      else (k', v') # qmap_insert k v m)"

definition keys :: "(string \<times> 'v) list \<Rightarrow> string list" where
  "keys m = map fst m"

text \<open>\<open>m[k]\<close> on a map of strings: the empty string when the key is absent.\<close>

definition qmap_string :: "(string \<times> string) list \<Rightarrow> string \<Rightarrow> string" where
  "qmap_string m k = (case map_of m k of None \<Rightarrow> [] | Some v \<Rightarrow> v)"

section \<open>The rule document\<close>

text \<open>
  The grammar is a tree of \<^verbatim>\<open>CXMLNode\<close>: a tag, its attributes and its child nodes.
\<close>

datatype CXMLNode =
  CXMLNode (xmlTag: string) (attributes: "(string \<times> string) list") (nodes: "CXMLNode list")

text \<open>
  Modelled from the spec: \<^verbatim>\<open>CXMLNode::getNodesByTagName\<close> is not among the sources.
  The document holds \<open>Macro\<close> and \<open>Check\<close> blocks, a check holds its \<open>Accept\<close> and
  \<open>Reject\<close> rules and a rule holds its \<open>Condition\<close>s: the nodes returned are the
  children of the node that carry the tag, in document order.
\<close>

definition getNodesByTagName :: "CXMLNode \<Rightarrow> string \<Rightarrow> CXMLNode list" where
  "getNodesByTagName x sTagName = filter (\<lambda>n. xmlTag n = sTagName) (nodes x)"

definition attr :: "CXMLNode \<Rightarrow> string \<Rightarrow> string" where
  "attr x k = qmap_string (attributes x) k"

section \<open>Macros\<close>

text \<open>
  \<^verbatim>\<open>QMLAnalyzer::parseMacros\<close> fills \<open>m_mMacros\<close> from the \<open>Macro\<close> nodes, a later
  node of the same name replacing an earlier one.
\<close>

definition parseMacros :: "CXMLNode \<Rightarrow> (string \<times> string) list" where
  "parseMacros xGrammar =
     foldl (\<lambda>m xMacro. qmap_insert (attr xMacro ''Name'') (attr xMacro ''Value'') m)
       [] (getNodesByTagName xGrammar ''Macro'')"

text \<open>
  \<^verbatim>\<open>QMLAnalyzer::processMacros\<close>: for each macro name in turn, when the text contains
  \<open>$name$\<close> and the macro's value is not empty, every occurrence is replaced.
\<close>

definition fullMacroName :: "string \<Rightarrow> string" where
  "fullMacroName sMacro = ''$'' @ sMacro @ ''$''"

definition processMacros_step :: "(string \<times> string) list \<Rightarrow> string \<Rightarrow> string \<Rightarrow> string" where
  "processMacros_step m_mMacros sMacro sResult =
     (if contains sResult (fullMacroName sMacro)
      then (if length (qmap_string m_mMacros sMacro) > 0
            then replace sResult (fullMacroName sMacro) (qmap_string m_mMacros sMacro)
            else sResult)
      else sResult)"

definition processMacros :: "(string \<times> string) list \<Rightarrow> string \<Rightarrow> string" where
  "processMacros m_mMacros sText = fold (processMacros_step m_mMacros) (keys m_mMacros) sText"

section \<open>The syntax tree\<close>

text \<open>
  A value of \<open>QMLEntity\<close> is what a \<^verbatim>\<open>QMLEntity*\<close> points to: \<open>nullptr\<close>, or an
  entity with what the analyzer reads of it. \<open>className\<close> is
  \<^verbatim>\<open>metaObject()->className()\<close>, \<open>position\<close> is the \<^verbatim>\<open>QPoint\<close> (column, line),
  \<open>valueType\<close> is \<^verbatim>\<open>QMLType::typeToString(value().type())\<close>, \<open>members\<close> is the map
  returned by \<^verbatim>\<open>members()\<close>. \<open>contents\<close> is \<open>None\<close> unless the entity is a
  \<^verbatim>\<open>QMLComplexEntity\<close>. \<open>unusedProperties\<close> is \<open>None\<close> unless the entity is a
  \<^verbatim>\<open>QMLItem\<close>, and then lists the positions of the entries of
  \<^verbatim>\<open>unusedProperties()\<close> in key order; \<open>unusedVariables\<close> and \<open>unusedParameters\<close> do
  the same for a \<^verbatim>\<open>QMLFunction\<close>.
\<close>

type_synonym QPoint = "int \<times> int"

datatype QMLEntity =
    nullptr
  | QMLEntity
      (className: string)
      (position: QPoint)
      (toString: string)
      (valueType: string)
      (members: "(string \<times> QMLEntity) list")
      (contents: "QMLEntity list option")
      (unusedProperties: "(string \<times> QPoint) list option")
      (unusedVariables: "(string \<times> QPoint) list option")
      (unusedParameters: "(string \<times> QPoint) list option")

text \<open>\<open>m[k]\<close> on a map of entity pointers: a null pointer when the key is absent.\<close>

definition memberAt :: "(string \<times> QMLEntity) list \<Rightarrow> string \<Rightarrow> QMLEntity" where
  "memberAt m k = (case map_of m k of None \<Rightarrow> nullptr | Some e \<Rightarrow> e)"

definition containsKey :: "(string \<times> 'v) list \<Rightarrow> string \<Rightarrow> bool" where
  "containsKey m k = (map_of m k \<noteq> None)"

text \<open>
  \<^verbatim>\<open>QMLBinaryOperation::members\<close>: the two operands under the keys \<open>Left\<close> and
  \<open>Right\<close>. A binary operation is an entity of class \<open>QMLBinaryOperation\<close> with these
  members; it is not a complex entity, an item or a function.
\<close>

definition QMLBinaryOperation_members :: "QMLEntity \<Rightarrow> QMLEntity \<Rightarrow> (string \<times> QMLEntity) list" where
  "QMLBinaryOperation_members m_pLeft m_pRight =
     qmap_insert ''Right'' m_pRight (qmap_insert ''Left'' m_pLeft [])"

definition QMLBinaryOperation :: "QPoint \<Rightarrow> string \<Rightarrow> string \<Rightarrow> QMLEntity \<Rightarrow> QMLEntity \<Rightarrow> QMLEntity" where
  "QMLBinaryOperation pPosition sToString sValueType pLeft pRight =
     QMLEntity ''QMLBinaryOperation'' pPosition sToString sValueType
       (QMLBinaryOperation_members pLeft pRight) None None None None"

section \<open>The parsing context\<close>

datatype EParseError = peSuccess | peNoFile | peSyntaxError

record QMLAnalyzerError =
  m_sFileName :: string
  m_pPosition :: QPoint
  m_sText :: string

definition QMLAnalyzerError :: "string \<Rightarrow> QPoint \<Rightarrow> string \<Rightarrow> QMLAnalyzerError" where
  "QMLAnalyzerError sFileName pPosition sText =
     \<lparr>m_sFileName = sFileName, m_pPosition = pPosition, m_sText = sText\<rparr>"

definition clearError :: QMLAnalyzerError where
  "clearError = \<lparr>m_sFileName = [], m_pPosition = (0, 0), m_sText = []\<rparr>"

text \<open>
  A \<^verbatim>\<open>QMLScope\<close>: the file being read, its text and the read position in it, and the
  lexer's bookkeeping.
\<close>

record QMLScope =
  m_pFile :: string
  m_sStream :: "char list"
  m_iPos :: nat
  m_iLine :: int
  m_iColumn :: int
  m_iPreviousLine :: int
  m_iPreviousColumn :: int
  m_iCommentLevel :: int
  m_bParsingFloat :: bool
  m_bParsingHexa :: bool
  m_pCurrentTokenValue :: string
  m_eScopeError :: EParseError

definition QMLScope :: "string \<Rightarrow> char list \<Rightarrow> QMLScope" where
  "QMLScope sFileName sText =
     \<lparr>m_pFile = sFileName, m_sStream = sText, m_iPos = 0, m_iLine = 0, m_iColumn = 0,
      m_iPreviousLine = 0, m_iPreviousColumn = 0, m_iCommentLevel = 0,
      m_bParsingFloat = False, m_bParsingHexa = False, m_pCurrentTokenValue = [],
      m_eScopeError = peSuccess\<rparr>"

text \<open>
  A \<^verbatim>\<open>QMLFile\<close> as the context and the analyzer use it: its name, the \<open>parsed\<close> flag
  and its top-level entities.

  Modelled from the spec: the resolver passes \<^verbatim>\<open>solveSymbols\<close>,
  \<^verbatim>\<open>solveReferences\<close> and \<^verbatim>\<open>solveSymbolUsages\<close> of \<^verbatim>\<open>QMLFile\<close> are not among the
  sources. Their annotations are computed after the parse and live with the file; the
  file records which of the passes have run on it.
\<close>

record QMLFile =
  fileName :: string
  parsed :: bool
  fileContents :: "QMLEntity list"
  symbolsSolved :: bool
  referencesSolved :: bool
  symbolUsagesSolved :: bool

definition QMLFile :: "string \<Rightarrow> QMLFile" where
  "QMLFile sFileName =
     \<lparr>fileName = sFileName, parsed = False, fileContents = [],
      symbolsSolved = False, referencesSolved = False, symbolUsagesSolved = False\<rparr>"

definition solveSymbols :: "QMLFile \<Rightarrow> QMLFile" where
  "solveSymbols f = f\<lparr>symbolsSolved := True\<rparr>"

definition solveReferences :: "QMLFile \<Rightarrow> QMLFile" where
  "solveReferences f = f\<lparr>referencesSolved := True\<rparr>"

definition solveSymbolUsages :: "QMLFile \<Rightarrow> QMLFile" where
  "solveSymbolUsages f = f\<lparr>symbolUsagesSolved := True\<rparr>"

record QMLTreeContext =
  m_vFiles :: "QMLFile list"
  m_sScopes :: "QMLScope list"
  m_eError :: EParseError
  m_tErrorObject :: QMLAnalyzerError
  m_bIncludeImports :: bool

definition QMLTreeContext :: QMLTreeContext where
  "QMLTreeContext =
     \<lparr>m_vFiles = [], m_sScopes = [], m_eError = peSuccess, m_tErrorObject = clearError,
      m_bIncludeImports = False\<rparr>"

section \<open>The analyzer\<close>

text \<open>
  The state of a \<^verbatim>\<open>QMLAnalyzer\<close>. Every method takes it as \<open>this\<close> and returns it
  updated. Each entry appended to \<open>m_vErrors\<close> is also sent as the signal
  \<^verbatim>\<open>analyzeError\<close>; the list is the record of both. \<open>m_lRewritten\<close> lists the files
  the analyzer has written back, each with the flag telling whether its unreferenced
  symbols were removed first.
\<close>

record QMLAnalyzer =
  m_xGrammar :: CXMLNode
  m_mMacros :: "(string \<times> string) list"
  m_vErrors :: "QMLAnalyzerError list"
  m_pContext :: QMLTreeContext
  m_bIncludeImportsFlag :: bool
  m_bRewriteFiles :: bool
  m_bRemoveUnreferencedSymbols :: bool
  m_lRewritten :: "(string \<times> bool) list"

text \<open>
  The generated parser \<^verbatim>\<open>yyparse\<close> is not among the sources. Its run on a scope is
  given by what it leaves behind: the entities it built for the file and, when it met a
  syntax error, the text it passed to \<^verbatim>\<open>showError\<close> with the line and the column at
  which the scope stood then. Parsing of imported files from inside the parser is not
  part of this.
\<close>

record ParseRun =
  builtContents :: "QMLEntity list"
  syntaxError :: "(string \<times> int \<times> int) option"

text \<open>
  What the analyzer asks of Qt, of the file system and of the generated parser:
  \<^verbatim>\<open>QRegExp(p).exactMatch(s)\<close>; whether the member's string, taken as a path from the
  directory of the analyzed file, names an existing file or directory; the text of a
  file; the run of the parser on a scope; whether a file opens for writing.
\<close>

record Environment =
  exactMatch :: "string \<Rightarrow> string \<Rightarrow> bool"
  pathExists :: "string \<Rightarrow> string \<Rightarrow> bool"
  readFile :: "string \<Rightarrow> char list"
  yyparse :: "QMLScope \<Rightarrow> ParseRun"
  opensForWriting :: "string \<Rightarrow> bool"

definition outputError :: "string \<Rightarrow> QPoint \<Rightarrow> string \<Rightarrow> QMLAnalyzer \<Rightarrow> QMLAnalyzer" where
  "outputError sFileName pPosition sText this =
     this\<lparr>m_vErrors := m_vErrors this @ [QMLAnalyzerError sFileName pPosition sText]\<rparr>"

text \<open>
  \<^verbatim>\<open>runGrammar_SatisfiesConditions\<close>. The body of its loop either returns \<open>false\<close> from
  the function or goes on to the next condition.
\<close>

datatype ConditionFlow = ReturnFalse | NextCondition

definition stripQuotes :: "string \<Rightarrow> string" where
  "stripQuotes s = replace s [CHR 0x22] []"

definition checkCondition :: "string \<Rightarrow> QMLEntity \<Rightarrow> CXMLNode \<Rightarrow> ConditionFlow" where
  "checkCondition sFileName pEntity xCondition =
     (let mMembers = members pEntity;
          sOperation = attr xCondition ''Operation'';
          sValue = attr xCondition ''Value'';
          sMember = toLower (attr xCondition ''Member'');
          sEmpty = toLower (attr xCondition ''Empty'');
          sNegate = toLower (attr xCondition ''Negate'')
      in
      if containsKey mMembers sMember \<and> memberAt mMembers sMember \<noteq> nullptr then
        (let sMemberToString = stripQuotes (toString (memberAt mMembers sMember)) in
         if sValue \<noteq> [] then
           (if sMemberToString = sValue
            then (if sNegate = ''true'' then ReturnFalse else NextCondition)
            else (if sNegate \<noteq> ''true'' then ReturnFalse else NextCondition))
         else if sEmpty \<noteq> [] then
           (if (sMemberToString = [] \<and> sEmpty = ''true'') = False
            then ReturnFalse else NextCondition)
         else NextCondition)
      else
        (if sMember = ''filename'' then
           (if sOperation = ''Contains'' then
              (if contains sFileName sValue
               then (if sNegate = ''true'' then ReturnFalse else NextCondition)
               else (if sNegate \<noteq> ''true'' then ReturnFalse else NextCondition))
            else
              (if sFileName = sValue
               then (if sNegate = ''true'' then ReturnFalse else NextCondition)
               else (if sNegate \<noteq> ''true'' then ReturnFalse else NextCondition)))
         else if sEmpty \<noteq> [] then
           (if sEmpty \<noteq> ''true'' then ReturnFalse else NextCondition)
         else NextCondition))"

fun satisfiesConditions_loop :: "string \<Rightarrow> QMLEntity \<Rightarrow> CXMLNode list \<Rightarrow> bool" where
  "satisfiesConditions_loop sFileName pEntity [] = True"
| "satisfiesConditions_loop sFileName pEntity (xCondition # vConditions) =
     (case checkCondition sFileName pEntity xCondition of
        ReturnFalse \<Rightarrow> False
      | NextCondition \<Rightarrow> satisfiesConditions_loop sFileName pEntity vConditions)"

definition runGrammar_SatisfiesConditions ::
    "string \<Rightarrow> string \<Rightarrow> QMLEntity \<Rightarrow> CXMLNode \<Rightarrow> bool" where
  "runGrammar_SatisfiesConditions sFileName sClassName pEntity xRule =
     satisfiesConditions_loop sFileName pEntity (getNodesByTagName xRule ''Condition'')"

text \<open>\<^verbatim>\<open>runGrammar_CountNested\<close>.\<close>

fun runGrammar_CountNested :: "string \<Rightarrow> QMLEntity \<Rightarrow> int" where
  "runGrammar_CountNested sClassName nullptr = 0"
| "runGrammar_CountNested sClassName (QMLEntity cn pos str vt mMembers cont up uv ua) =
     (let iCount = fold (\<lambda>(sKey, pMember) iCount.
                      let iNewCount = runGrammar_CountNested sClassName pMember
                      in if iNewCount > iCount then iNewCount else iCount) mMembers 0;
          iCount = (case cont of
                      None \<Rightarrow> iCount
                    | Some children \<Rightarrow>
                        fold (\<lambda>pChildItem iCount.
                          let iNewCount = runGrammar_CountNested sClassName pChildItem
                          in if iNewCount > iCount then iNewCount else iCount) children iCount)
      in if cn = sClassName then iCount + 1 else iCount)"

text \<open>An attribute of a rule, with the macros expanded.\<close>

definition ruleAttr :: "QMLAnalyzer \<Rightarrow> CXMLNode \<Rightarrow> string \<Rightarrow> string" where
  "ruleAttr this xRule k = processMacros (m_mMacros this) (attr xRule k)"

definition ruleMember :: "QMLAnalyzer \<Rightarrow> CXMLNode \<Rightarrow> string" where
  "ruleMember this xRule = processMacros (m_mMacros this) (toLower (attr xRule ''Member''))"

text \<open>
  \<^verbatim>\<open>runGrammar_Reject\<close>: evaluates one rule on one entity, with \<open>bInverseLogic\<close> false
  for a \<open>Reject\<close> rule and true for an \<open>Accept\<close> rule. It returns whether the rule fired.
  The exclusive or \<^verbatim>\<open>a ^ b\<close> of two booleans is \<open>a \<noteq> b\<close>.
\<close>

definition runGrammar_Reject ::
    "Environment \<Rightarrow> string \<Rightarrow> string \<Rightarrow> QMLEntity \<Rightarrow> CXMLNode \<Rightarrow> bool \<Rightarrow> QMLAnalyzer
       \<Rightarrow> bool \<times> QMLAnalyzer" where
  "runGrammar_Reject env sFileName sClassName pEntity xRule bInverseLogic this =
     (let sMember = ruleMember this xRule;
          sValue = ruleAttr this xRule ''Value'';
          sType = ruleAttr this xRule ''Type'';
          sText = ruleAttr this xRule ''Text'';
          sNestedCount = ruleAttr this xRule ''NestedCount'';
          sCount = ruleAttr this xRule ''Count'';
          sRegExp = ruleAttr this xRule ''RegExp'';
          sPath = ruleAttr this xRule ''Path'';
          sList = ruleAttr this xRule ''List'';
          sClass = ruleAttr this xRule ''Class''
      in
      if runGrammar_SatisfiesConditions sFileName sClassName pEntity xRule then
        (let mMembers = members pEntity in
         if sNestedCount \<noteq> [] then
           (let iNestedCountAllowed = toInt sNestedCount in
            if (iNestedCountAllowed > 0) \<noteq> bInverseLogic then
              (let iNestedCount = runGrammar_CountNested sClassName pEntity in
               if iNestedCount > iNestedCountAllowed
               then (True, outputError sFileName (position pEntity) sText this)
               else (False, this))
            else (False, this))
         else if containsKey mMembers sMember \<and> memberAt mMembers sMember \<noteq> nullptr then
           (let sMemberToString = stripQuotes (toString (memberAt mMembers sMember));
                sMemberClass = className (memberAt mMembers sMember)
            in
            if sList \<noteq> [] then
              (let lNames = split sList in
               if (sMemberToString \<in> set lNames) \<noteq> bInverseLogic
               then (True, outputError sFileName (position pEntity) sText this)
               else (False, this))
            else if sClass \<noteq> [] then
              (if (sMemberClass = sClass) \<noteq> bInverseLogic
               then (True, outputError sFileName (position pEntity) sText this)
               else (False, this))
            else if sPath \<noteq> [] then
              (if sPath = ''Exists'' then
                 (let bExists = pathExists env sFileName sMemberToString in
                  if (bExists = True) \<noteq> bInverseLogic
                  then (True, outputError sFileName (position pEntity) sText this)
                  else (False, this))
               else (False, this))
            else if sRegExp \<noteq> [] \<and> sMemberToString \<noteq> [] then
              (if (exactMatch env sRegExp sMemberToString) \<noteq> bInverseLogic
               then (True, outputError sFileName (position pEntity) sText this)
               else (False, this))
            else if sCount \<noteq> [] then
              (let iCountToCheck = toInt sCount in
               case contents (memberAt mMembers sMember) of
                 None \<Rightarrow> (False, this)
               | Some pComplexContents \<Rightarrow>
                   if (int (length pComplexContents) > iCountToCheck) \<noteq> bInverseLogic
                   then (True, outputError sFileName (position pEntity) sText this)
                   else (False, this))
            else if sType \<noteq> [] then
              (let sTypeToString = valueType (memberAt mMembers sMember) in
               if (sTypeToString = sType) \<noteq> bInverseLogic
               then (True, outputError sFileName (position pEntity) sText this)
               else (False, this))
            else
              (if (sMemberToString = sValue) \<noteq> bInverseLogic
               then (True, outputError sFileName (position pEntity) sText this)
               else (False, this)))
         else (False, this))
      else (False, this))"

text \<open>
  The loops of \<^verbatim>\<open>runGrammar_Recurse\<close> over the rules of one \<open>Check\<close> block and over
  the \<open>Check\<close> blocks. Each carries \<open>bHasRejects\<close> and the analyzer along.
\<close>

definition runRules ::
    "Environment \<Rightarrow> string \<Rightarrow> string \<Rightarrow> QMLEntity \<Rightarrow> bool \<Rightarrow> CXMLNode list
       \<Rightarrow> bool \<times> QMLAnalyzer \<Rightarrow> bool \<times> QMLAnalyzer" where
  "runRules env sFileName sClassName pEntity bInverseLogic vRules st =
     fold (\<lambda>xRule (bHasRejects, this).
             case runGrammar_Reject env sFileName sClassName pEntity xRule bInverseLogic this of
               (bFired, this') \<Rightarrow> (if bFired then True else bHasRejects, this'))
       vRules st"

definition runCheck ::
    "Environment \<Rightarrow> string \<Rightarrow> QMLEntity \<Rightarrow> CXMLNode \<Rightarrow> bool \<times> QMLAnalyzer \<Rightarrow> bool \<times> QMLAnalyzer" where
  "runCheck env sFileName pEntity xCheck st =
     (let sClassName = attr xCheck ''Class'' in
      if className pEntity = sClassName then
        (let vAccepts = getNodesByTagName xCheck ''Accept'';
             vRejects = getNodesByTagName xCheck ''Reject'';
             st = runRules env sFileName sClassName pEntity False vRejects st;
             st = runRules env sFileName sClassName pEntity True vAccepts st
         in st)
      else st)"

definition runChecks ::
    "Environment \<Rightarrow> string \<Rightarrow> QMLEntity \<Rightarrow> QMLAnalyzer \<Rightarrow> bool \<times> QMLAnalyzer" where
  "runChecks env sFileName pEntity this =
     fold (runCheck env sFileName pEntity) (getNodesByTagName (m_xGrammar this) ''Check'')
       (False, this)"

text \<open>The diagnostics for unreferenced symbols, one per entry of the map.\<close>

definition outputUnreferenced ::
    "string \<Rightarrow> string \<Rightarrow> (string \<times> QPoint) list option \<Rightarrow> QMLAnalyzer \<Rightarrow> QMLAnalyzer" where
  "outputUnreferenced sFileName sText unused this =
     (case unused of
        None \<Rightarrow> this
      | Some m \<Rightarrow> fold (\<lambda>(sKey, pPosition). outputError sFileName pPosition sText) m this)"

text \<open>\<^verbatim>\<open>runGrammar_Recurse\<close> and \<^verbatim>\<open>runGrammar\<close>.\<close>

fun runGrammar_Recurse :: "Environment \<Rightarrow> string \<Rightarrow> QMLEntity \<Rightarrow> QMLAnalyzer \<Rightarrow> QMLAnalyzer" where
  "runGrammar_Recurse env sFileName nullptr this = this"
| "runGrammar_Recurse env sFileName (QMLEntity cn pos str vt mMembers cont up uv ua) this =
     (let pEntity = QMLEntity cn pos str vt mMembers cont up uv ua;
          this = outputUnreferenced sFileName ''Unreferenced property'' up this;
          this = outputUnreferenced sFileName ''Unreferenced variable'' uv this;
          this = outputUnreferenced sFileName ''Unreferenced parameter'' ua this
      in case runChecks env sFileName pEntity this of
        (bHasRejects, this) \<Rightarrow>
          if bHasRejects = False then
            (let this = fold (\<lambda>(sKey, pMember) this.
                          runGrammar_Recurse env sFileName pMember this) mMembers this
             in case cont of
                  None \<Rightarrow> this
                | Some children \<Rightarrow>
                    fold (\<lambda>pChildItem this.
                      runGrammar_Recurse env sFileName pChildItem this) children this)
          else this)"

definition runGrammar :: "Environment \<Rightarrow> string \<Rightarrow> QMLFile \<Rightarrow> QMLAnalyzer \<Rightarrow> QMLAnalyzer" where
  "runGrammar env sFileName pFile this =
     fold (\<lambda>pEntity this. runGrammar_Recurse env sFileName pEntity this) (fileContents pFile) this"

section \<open>The lexer\<close>

text \<open>The token codes of \<^verbatim>\<open>QMLTreeContext.cpp\<close>, those the lexer returns.\<close>

abbreviation TOKEN_IDENTIFIER :: int where "TOKEN_IDENTIFIER \<equiv> 300"
abbreviation TOKEN_LITERAL :: int where "TOKEN_LITERAL \<equiv> 301"
abbreviation TOKEN_BOOLCONSTANT :: int where "TOKEN_BOOLCONSTANT \<equiv> 302"
abbreviation TOKEN_INTEGERCONSTANT :: int where "TOKEN_INTEGERCONSTANT \<equiv> 303"
abbreviation TOKEN_REALCONSTANT :: int where "TOKEN_REALCONSTANT \<equiv> 304"
abbreviation TOKEN_ASSIGN :: int where "TOKEN_ASSIGN \<equiv> 310"
abbreviation TOKEN_ADD :: int where "TOKEN_ADD \<equiv> 311"
abbreviation TOKEN_SUB :: int where "TOKEN_SUB \<equiv> 312"
abbreviation TOKEN_MUL :: int where "TOKEN_MUL \<equiv> 313"
abbreviation TOKEN_DIV :: int where "TOKEN_DIV \<equiv> 314"
abbreviation TOKEN_MOD :: int where "TOKEN_MOD \<equiv> 315"
abbreviation TOKEN_AND :: int where "TOKEN_AND \<equiv> 316"
abbreviation TOKEN_OR :: int where "TOKEN_OR \<equiv> 317"
abbreviation TOKEN_XOR :: int where "TOKEN_XOR \<equiv> 318"
abbreviation TOKEN_SHL :: int where "TOKEN_SHL \<equiv> 319"
abbreviation TOKEN_SHR :: int where "TOKEN_SHR \<equiv> 320"
abbreviation TOKEN_ADD_ASSIGN :: int where "TOKEN_ADD_ASSIGN \<equiv> 321"
abbreviation TOKEN_SUB_ASSIGN :: int where "TOKEN_SUB_ASSIGN \<equiv> 322"
abbreviation TOKEN_MUL_ASSIGN :: int where "TOKEN_MUL_ASSIGN \<equiv> 323"
abbreviation TOKEN_DIV_ASSIGN :: int where "TOKEN_DIV_ASSIGN \<equiv> 324"
abbreviation TOKEN_MOD_ASSIGN :: int where "TOKEN_MOD_ASSIGN \<equiv> 325"
abbreviation TOKEN_AND_ASSIGN :: int where "TOKEN_AND_ASSIGN \<equiv> 326"
abbreviation TOKEN_OR_ASSIGN :: int where "TOKEN_OR_ASSIGN \<equiv> 327"
abbreviation TOKEN_XOR_ASSIGN :: int where "TOKEN_XOR_ASSIGN \<equiv> 328"
abbreviation TOKEN_SHL_ASSIGN :: int where "TOKEN_SHL_ASSIGN \<equiv> 329"
abbreviation TOKEN_SHR_ASSIGN :: int where "TOKEN_SHR_ASSIGN \<equiv> 330"
abbreviation TOKEN_LOWER :: int where "TOKEN_LOWER \<equiv> 331"
abbreviation TOKEN_GREATER :: int where "TOKEN_GREATER \<equiv> 332"
abbreviation TOKEN_LOWER_EQUALS :: int where "TOKEN_LOWER_EQUALS \<equiv> 333"
abbreviation TOKEN_GREATER_EQUALS :: int where "TOKEN_GREATER_EQUALS \<equiv> 334"
abbreviation TOKEN_EQUALS :: int where "TOKEN_EQUALS \<equiv> 335"
abbreviation TOKEN_EQUALS_CHECK :: int where "TOKEN_EQUALS_CHECK \<equiv> 336"
abbreviation TOKEN_NOT_EQUALS :: int where "TOKEN_NOT_EQUALS \<equiv> 337"
abbreviation TOKEN_NOT_EQUALS_CHECK :: int where "TOKEN_NOT_EQUALS_CHECK \<equiv> 338"
abbreviation TOKEN_LOGICAL_AND :: int where "TOKEN_LOGICAL_AND \<equiv> 339"
abbreviation TOKEN_LOGICAL_OR :: int where "TOKEN_LOGICAL_OR \<equiv> 340"
abbreviation TOKEN_NOT :: int where "TOKEN_NOT \<equiv> 341"
abbreviation TOKEN_NOT_NOT :: int where "TOKEN_NOT_NOT \<equiv> 342"
abbreviation TOKEN_INC :: int where "TOKEN_INC \<equiv> 343"
abbreviation TOKEN_DEC :: int where "TOKEN_DEC \<equiv> 344"
abbreviation TOKEN_COMPLEMENT :: int where "TOKEN_COMPLEMENT \<equiv> 345"
abbreviation TOKEN_DIMENSION :: int where "TOKEN_DIMENSION \<equiv> 346"
abbreviation TOKEN_IMPORT :: int where "TOKEN_IMPORT \<equiv> 500"
abbreviation TOKEN_PROPERTY :: int where "TOKEN_PROPERTY \<equiv> 501"
abbreviation TOKEN_DEFAULT :: int where "TOKEN_DEFAULT \<equiv> 502"
abbreviation TOKEN_READ_ONLY :: int where "TOKEN_READ_ONLY \<equiv> 503"
abbreviation TOKEN_ALIAS :: int where "TOKEN_ALIAS \<equiv> 504"
abbreviation TOKEN_VAR :: int where "TOKEN_VAR \<equiv> 505"
abbreviation TOKEN_FUNCTION :: int where "TOKEN_FUNCTION \<equiv> 512"
abbreviation TOKEN_IF :: int where "TOKEN_IF \<equiv> 513"
abbreviation TOKEN_ELSE :: int where "TOKEN_ELSE \<equiv> 514"
abbreviation TOKEN_FOR :: int where "TOKEN_FOR \<equiv> 515"
abbreviation TOKEN_IN :: int where "TOKEN_IN \<equiv> 516"
abbreviation TOKEN_WHILE :: int where "TOKEN_WHILE \<equiv> 517"
abbreviation TOKEN_SWITCH :: int where "TOKEN_SWITCH \<equiv> 518"
abbreviation TOKEN_CASE :: int where "TOKEN_CASE \<equiv> 519"
abbreviation TOKEN_BREAK :: int where "TOKEN_BREAK \<equiv> 520"
abbreviation TOKEN_CONTINUE :: int where "TOKEN_CONTINUE \<equiv> 521"
abbreviation TOKEN_WITH :: int where "TOKEN_WITH \<equiv> 522"
abbreviation TOKEN_RETURN :: int where "TOKEN_RETURN \<equiv> 523"
abbreviation TOKEN_TYPEOF :: int where "TOKEN_TYPEOF \<equiv> 524"
abbreviation TOKEN_PRAGMA :: int where "TOKEN_PRAGMA \<equiv> 525"
abbreviation TOKEN_ON :: int where "TOKEN_ON \<equiv> 526"
abbreviation TOKEN_AS :: int where "TOKEN_AS \<equiv> 527"
abbreviation TOKEN_SIGNAL :: int where "TOKEN_SIGNAL \<equiv> 528"
abbreviation TOKEN_NEW :: int where "TOKEN_NEW \<equiv> 529"

text \<open>
  The keyword table \<open>m_mTokens\<close> that the constructor of the context fills.
\<close>

definition m_mTokens :: "(string \<times> int) list" where
  "m_mTokens =
     [(''import'', TOKEN_IMPORT), (''property'', TOKEN_PROPERTY), (''default'', TOKEN_DEFAULT),
      (''readonly'', TOKEN_READ_ONLY), (''alias'', TOKEN_ALIAS), (''function'', TOKEN_FUNCTION),
      (''if'', TOKEN_IF), (''else'', TOKEN_ELSE), (''for'', TOKEN_FOR), (''in'', TOKEN_IN),
      (''while'', TOKEN_WHILE), (''switch'', TOKEN_SWITCH), (''case'', TOKEN_CASE),
      (''break'', TOKEN_BREAK), (''continue'', TOKEN_CONTINUE), (''with'', TOKEN_WITH),
      (''return'', TOKEN_RETURN), (''typeof'', TOKEN_TYPEOF), (''pragma'', TOKEN_PRAGMA),
      (''on'', TOKEN_ON), (''as'', TOKEN_AS), (''signal'', TOKEN_SIGNAL), (''var'', TOKEN_VAR),
      (''new'', TOKEN_NEW)]"

text \<open>
  \<open>EOF\<close> is \<open>-1\<close>. \<open>ord\<close> gives the code of a character constant of the source.
  \<^verbatim>\<open>isdigit\<close>, \<^verbatim>\<open>isalpha\<close> and \<^verbatim>\<open>isalnum\<close> are those of the C locale.
\<close>

abbreviation EOF :: int where "EOF \<equiv> - 1"

definition ord :: "char \<Rightarrow> int" where
  "ord c = int (of_char c)"

definition isdigit :: "int \<Rightarrow> bool" where
  "isdigit c = (ord CHR ''0'' \<le> c \<and> c \<le> ord CHR ''9'')"

definition isalpha :: "int \<Rightarrow> bool" where
  "isalpha c = ((ord CHR ''a'' \<le> c \<and> c \<le> ord CHR ''z'') \<or> (ord CHR ''A'' \<le> c \<and> c \<le> ord CHR ''Z''))"

definition isalnum :: "int \<Rightarrow> bool" where
  "isalnum c = (isalpha c \<or> isdigit c)"

text \<open>
  \<^verbatim>\<open>QChar::toLatin1\<close> returns a \<^verbatim>\<open>char\<close>, which \<^verbatim>\<open>getChar\<close> keeps in an \<^verbatim>\<open>int\<close>. The
  \<^verbatim>\<open>char\<close> is signed: the characters of code 128 to 255 are read as \<open>-128\<close> to \<open>-1\<close>, and
  the character of code 255 is read as \<open>-1\<close>, the value of \<open>EOF\<close>. The text of a file is a
  text of characters up to code 255.
\<close>

definition toLatin1 :: "char \<Rightarrow> int" where
  "toLatin1 c = (if ord c < 128 then ord c else ord c - 256)"

text \<open>
  \<^verbatim>\<open>QMLTreeContext::getChar\<close> and \<^verbatim>\<open>QMLTreeContext::ungetChar\<close>. The stream is the text
  of the file with the read position \<open>m_iPos\<close>; \<^verbatim>\<open>seek(pos() - 1)\<close> at position 0 leaves
  the position where it is.
\<close>

definition atEnd :: "QMLScope \<Rightarrow> bool" where
  "atEnd s = (length (m_sStream s) \<le> m_iPos s)"

definition getChar :: "QMLScope \<Rightarrow> int \<times> QMLScope" where
  "getChar s =
     (if atEnd s then (EOF, s)
      else
        (let iChar = toLatin1 (m_sStream s ! m_iPos s);
             s = s\<lparr>m_iPos := m_iPos s + 1\<rparr>
         in if iChar = 10 then (iChar, s\<lparr>m_iColumn := 0, m_iLine := m_iLine s + 1\<rparr>)
            else if iChar = 9 then (iChar, s\<lparr>m_iColumn := m_iColumn s + 8\<rparr>)
            else if iChar = 13 then (iChar, s)
            else (iChar, s\<lparr>m_iColumn := m_iColumn s + 1\<rparr>)))"

definition ungetChar :: "int \<Rightarrow> QMLScope \<Rightarrow> QMLScope" where
  "ungetChar iChar s =
     (let s = s\<lparr>m_iPos := m_iPos s - 1\<rparr>
      in if iChar = 10 then s\<lparr>m_iColumn := 1024, m_iLine := m_iLine s - 1\<rparr>
         else if iChar = 9 then s\<lparr>m_iColumn := m_iColumn s - 8\<rparr>
         else if iChar = 13 then s
         else s\<lparr>m_iColumn := m_iColumn s - 1\<rparr>)"

text \<open>
  The macro \<^verbatim>\<open>STORE(a)\<close> appends the character \<^verbatim>\<open>QChar(a)\<close> to the text of the current
  token. For a code \<open>a\<close> below 0 that is the character of code \<open>65536 + a\<close>; in the text of
  a token, and only there, the character of code \<open>256 + a\<close> stands for it.
\<close>

definition STORE :: "int \<Rightarrow> QMLScope \<Rightarrow> QMLScope" where
  "STORE a s = s\<lparr>m_pCurrentTokenValue := m_pCurrentTokenValue s @ [char_of a]\<rparr>"

text \<open>
  The value the lexer hands to the parser through \<open>LVAL\<close>. A real constant keeps the text
  that \<^verbatim>\<open>toDouble\<close> converts.
\<close>

datatype UParserValue = NoValue | Boolean bool | Integer int | Real string | String string

text \<open>
  The measure of the loops that read on until the end of the text: the number of
  characters still to read.
\<close>

definition remaining :: "QMLScope \<Rightarrow> nat" where
  "remaining s = length (m_sStream s) - m_iPos s"

lemma getChar_remaining:
  "(c, s') = getChar s \<Longrightarrow> c \<noteq> EOF \<Longrightarrow> remaining s' < remaining s"
  by (auto simp: getChar_def remaining_def atEnd_def Let_def split: if_splits)

lemma getChar_remaining_le:
  "(c, s') = getChar s \<Longrightarrow> remaining s' \<le> remaining s"
  by (auto simp: getChar_def remaining_def atEnd_def Let_def split: if_splits)

lemma STORE_remaining [simp]: "remaining (STORE a s) = remaining s"
  by (simp add: STORE_def remaining_def)

lemma remaining_flag [simp]: "remaining (s\<lparr>m_bParsingFloat := b\<rparr>) = remaining s"
  by (simp add: remaining_def)

text \<open>
  The loop of a single-line comment, \<^verbatim>\<open>while (c != '\n') { GET(c); if (c == EOF) return 0; }\<close>.
  The result is \<open>True\<close> when the function returns 0 from inside the loop.
\<close>

function skipLine :: "int \<Rightarrow> QMLScope \<Rightarrow> bool \<times> QMLScope" where
  "skipLine c s =
     (if c \<noteq> 10 then
        (case getChar s of
           (c', s') \<Rightarrow> if c' = EOF then (True, s') else skipLine c' s')
      else (False, s))"
  by pat_completeness auto
termination
  apply (relation "measure (\<lambda>(c, s). remaining s)")
   apply simp
  apply (unfold in_measure prod.case)
  apply (erule getChar_remaining, assumption)
  done

declare skipLine.simps [simp del]

text \<open>
  The first loop of \<^verbatim>\<open>parseNextToken\<close>, which skips white space and comments. It
  ends by \<^verbatim>\<open>return 0\<close> or by \<^verbatim>\<open>break\<close>. The loop need not end: it runs on fuel, one
  unit for each turn, and \<open>None\<close> is the loop still running when the fuel is used up.
\<close>

datatype LoopExit = Return0 | Break

fun skipWhites :: "nat \<Rightarrow> QMLScope \<Rightarrow> (LoopExit \<times> QMLScope) option" where
  "skipWhites 0 s = None"
| "skipWhites (Suc fuel) s =
     (case getChar s of
        (c, s) \<Rightarrow>
          if c = EOF then Some (Return0, s)
          else if m_iCommentLevel s > 0 then
            (if c = ord CHR ''*'' then
               (case getChar s of
                  (d, s) \<Rightarrow>
                    if d = ord CHR ''/''
                    then skipWhites fuel (s\<lparr>m_iCommentLevel := m_iCommentLevel s - 1\<rparr>)
                    else skipWhites fuel (ungetChar d s))
             else skipWhites fuel s)
          else if c = ord CHR ''/'' then
            (case getChar s of
               (d, s) \<Rightarrow>
                 if d = ord CHR ''*''
                 then skipWhites fuel (s\<lparr>m_iCommentLevel := m_iCommentLevel s + 1\<rparr>)
                 else if d = ord CHR ''/'' then
                   (if m_iCommentLevel s = 0 then
                      (case skipLine c s of
                         (True, s) \<Rightarrow> Some (Return0, s)
                       | (False, s) \<Rightarrow> skipWhites fuel s)
                    else skipWhites fuel s)
                 else Some (Break, ungetChar c (ungetChar d s)))
          else
            (if c > ord CHR '' '' then Some (Break, ungetChar c s)
             else skipWhites fuel s))"

text \<open>
  The loop after a \<open>[\<close>, \<^verbatim>\<open>while (1) { GET(d); if (d > ' ') { ... } }\<close>, on fuel as well.
  The result is \<open>True\<close> when a \<open>]\<close> was found and the token is the dimension token.
\<close>

fun bracketLoop :: "nat \<Rightarrow> QMLScope \<Rightarrow> (bool \<times> QMLScope) option" where
  "bracketLoop 0 s = None"
| "bracketLoop (Suc fuel) s =
     (case getChar s of
        (d, s) \<Rightarrow>
          if d > ord CHR '' '' then
            (if d = ord CHR '']'' then Some (True, STORE d s)
             else Some (False, ungetChar d s))
          else bracketLoop fuel s)"

text \<open>\<^verbatim>\<open>QMLTreeContext::parseEscape\<close>.\<close>

definition parseEscape :: "QMLScope \<Rightarrow> int \<times> QMLScope" where
  "parseEscape s =
     (case getChar s of
        (c, s) \<Rightarrow>
          if c = ord (CHR 0x22) then (ord (CHR 0x22), s)
          else if c = ord (CHR 0x5C) then (ord (CHR 0x5C), s)
          else if c = ord CHR ''a'' then (7, s)
          else if c = ord CHR ''b'' then (8, s)
          else if c = ord CHR ''f'' then (12, s)
          else if c = ord CHR ''n'' then (10, s)
          else if c = ord CHR ''r'' then (13, s)
          else if c = ord CHR ''t'' then (9, s)
          else if c = ord CHR ''v'' then (11, s)
          else (ord CHR '' '', s))"

lemma parseEscape_remaining:
  "(c, s1) = getChar s \<Longrightarrow> c \<noteq> EOF \<Longrightarrow> (c', s2) = parseEscape s1 \<Longrightarrow>
     remaining s2 < remaining s"
proof -
  assume g: "(c, s1) = getChar s" "c \<noteq> EOF" and e: "(c', s2) = parseEscape s1"
  obtain d where "(d, s2) = getChar s1"
    using e by (auto simp: parseEscape_def split: prod.splits if_splits)
  then have "remaining s2 \<le> remaining s1" by (rule getChar_remaining_le)
  moreover have "remaining s1 < remaining s" using g by (rule getChar_remaining)
  ultimately show ?thesis by simp
qed

text \<open>
  The loop of a string literal closed by the character \<open>q\<close>. The result is \<open>True\<close> when
  the text ended inside the literal and the function returns 0.
\<close>

function literalLoop :: "int \<Rightarrow> QMLScope \<Rightarrow> bool \<times> QMLScope" where
  "literalLoop q s =
     (case getChar s of
        (c, s1) \<Rightarrow>
          if c = EOF then (True, s1)
          else if c = q then (False, s1)
          else if c = ord (CHR 0x5C) then
            (case parseEscape s1 of (c', s2) \<Rightarrow> literalLoop q (STORE c' s2))
          else literalLoop q (STORE c s1))"
  by pat_completeness auto
termination
  apply (relation "measure (\<lambda>(q, s). remaining s)")
    apply simp
   apply (unfold in_measure prod.case STORE_remaining)
   apply (erule parseEscape_remaining, assumption, assumption)
  apply (erule getChar_remaining, assumption)
  done

declare literalLoop.simps [simp del]

text \<open>
  \<^verbatim>\<open>QMLTreeContext::parseNumber\<close>: its loop, which leaves by \<open>Done = true\<close>, and the
  conversion of the text read.
\<close>

definition isHexLetter :: "int \<Rightarrow> bool" where
  "isHexLetter c = ((ord CHR ''a'' \<le> c \<and> c \<le> ord CHR ''f'') \<or> (ord CHR ''A'' \<le> c \<and> c \<le> ord CHR ''F''))"

function numberLoop :: "QMLScope \<Rightarrow> QMLScope" where
  "numberLoop s =
     (case getChar s of
        (c, s1) \<Rightarrow>
          if isdigit c then numberLoop (STORE c s1)
          else if isHexLetter c then
            (if m_bParsingHexa s1 then numberLoop (STORE c s1) else ungetChar c s1)
          else if c = ord CHR ''.'' then
            (if \<not> m_bParsingFloat s1
             then numberLoop (STORE c (s1\<lparr>m_bParsingFloat := True\<rparr>))
             else ungetChar c s1)
          else ungetChar c s1)"
  by pat_completeness auto
termination
  apply (relation "measure remaining")
     apply simp
    apply (unfold in_measure STORE_remaining remaining_flag)
    apply (erule getChar_remaining, (auto simp: isdigit_def ord_def)[1])
   apply (erule getChar_remaining, (auto simp: isHexLetter_def ord_def)[1])
  apply (erule getChar_remaining, (auto simp: ord_def)[1])
  done

declare numberLoop.simps [simp del]

definition parseNumber :: "UParserValue \<Rightarrow> QMLScope \<Rightarrow> int \<times> UParserValue \<times> QMLScope" where
  "parseNumber LVAL s =
     (let s = numberLoop s in
      if m_bParsingFloat s then (TOKEN_REALCONSTANT, Real (m_pCurrentTokenValue s), s)
      else if m_bParsingHexa s
      then (TOKEN_INTEGERCONSTANT, Integer (toInt (m_pCurrentTokenValue s)), s)
      else (TOKEN_INTEGERCONSTANT, Integer (toInt (m_pCurrentTokenValue s)), s))"

text \<open>
  The loop of an identifier,
  \<^verbatim>\<open>do { STORE(c); GET(c); } while (c != EOF && (isalnum(c) || c == '_' | c == '$'))\<close>.
\<close>

function identifierLoop :: "int \<Rightarrow> QMLScope \<Rightarrow> int \<times> QMLScope" where
  "identifierLoop c s =
     (case getChar (STORE c s) of
        (c', s') \<Rightarrow>
          if c' \<noteq> EOF \<and> (isalnum c' \<or> c' = ord CHR ''_'' \<or> c' = ord CHR ''$'')
          then identifierLoop c' s'
          else (c', s'))"
  by pat_completeness auto
termination
  apply (relation "measure (\<lambda>(c, s). remaining s)")
   apply simp
  apply (unfold in_measure prod.case)
  apply (drule getChar_remaining, blast)
  apply (unfold STORE_remaining, assumption)
  done

declare identifierLoop.simps [simp del]

text \<open>
  The operators of \<^verbatim>\<open>parseNextToken\<close>, in the order of the source. \<open>c\<close> is the
  character just read. The result is \<open>None\<close> when \<open>c\<close> begins none of them.
\<close>

definition scanOperator :: "int \<Rightarrow> QMLScope \<Rightarrow> (int \<times> QMLScope) option" where
  "scanOperator c s =
     (if c = ord CHR ''+'' then
        (case getChar (STORE c s) of
           (d, s) \<Rightarrow>
             if d = ord CHR ''+'' then Some (TOKEN_INC, STORE d s)
             else if d = ord CHR ''='' then Some (TOKEN_ADD_ASSIGN, STORE d s)
             else Some (TOKEN_ADD, ungetChar d s))
      else if c = ord CHR ''-'' then
        (case getChar (STORE c s) of
           (d, s) \<Rightarrow>
             if d = ord CHR ''-'' then Some (TOKEN_DEC, STORE d s)
             else if d = ord CHR ''='' then Some (TOKEN_SUB_ASSIGN, STORE d s)
             else Some (TOKEN_SUB, ungetChar d s))
      else if c = ord CHR ''*'' then
        (case getChar (STORE c s) of
           (d, s) \<Rightarrow>
             if d = ord CHR ''='' then Some (TOKEN_MUL_ASSIGN, STORE d s)
             else Some (TOKEN_MUL, ungetChar d s))
      else if c = ord CHR ''/'' then
        (case getChar (STORE c s) of
           (d, s) \<Rightarrow>
             if d = ord CHR ''='' then Some (TOKEN_DIV_ASSIGN, STORE d s)
             else Some (TOKEN_DIV, ungetChar d s))
      else if c = ord CHR ''%'' then
        (case getChar (STORE c s) of
           (d, s) \<Rightarrow>
             if d = ord CHR ''='' then Some (TOKEN_MOD_ASSIGN, STORE d s)
             else Some (TOKEN_MOD, ungetChar d s))
      else if c = ord CHR ''&'' then
        (case getChar (STORE c s) of
           (d, s) \<Rightarrow>
             if d = ord CHR ''&'' then Some (TOKEN_LOGICAL_AND, STORE d s)
             else if d = ord CHR ''='' then Some (TOKEN_AND_ASSIGN, STORE d s)
             else Some (TOKEN_AND, ungetChar d s))
      else if c = ord CHR ''|'' then
        (case getChar (STORE c s) of
           (d, s) \<Rightarrow>
             if d = ord CHR ''|'' then Some (TOKEN_LOGICAL_OR, STORE d s)
             else if d = ord CHR ''='' then Some (TOKEN_OR_ASSIGN, STORE d s)
             else Some (TOKEN_OR, ungetChar d s))
      else if c = ord CHR ''^'' then
        (case getChar (STORE c s) of
           (d, s) \<Rightarrow>
             if d = ord CHR ''='' then Some (TOKEN_XOR_ASSIGN, STORE d s)
             else Some (TOKEN_XOR, ungetChar d s))
      else if c = ord CHR ''<'' then
        (case getChar (STORE c s) of
           (d, s) \<Rightarrow>
             if d = ord CHR ''='' then Some (TOKEN_LOWER_EQUALS, STORE d s)
             else if d = ord CHR ''<'' then
               (case getChar (STORE d s) of
                  (e, s) \<Rightarrow>
                    if e = ord CHR ''='' then Some (TOKEN_SHL_ASSIGN, STORE e s)
                    else Some (TOKEN_SHL, ungetChar e s))
             else if d = ord CHR ''>'' then Some (TOKEN_NOT_EQUALS, STORE d s)
             else Some (TOKEN_LOWER, ungetChar d s))
      else if c = ord CHR ''>'' then
        (case getChar (STORE c s) of
           (d, s) \<Rightarrow>
             if d = ord CHR ''='' then Some (TOKEN_GREATER_EQUALS, STORE d s)
             else if d = ord CHR ''>'' then
               (case getChar (STORE d s) of
                  (e, s) \<Rightarrow>
                    if e = ord CHR ''='' then Some (TOKEN_SHR_ASSIGN, STORE e s)
                    else Some (TOKEN_SHR, ungetChar e s))
             else Some (TOKEN_GREATER, ungetChar d s))
      else if c = ord CHR ''='' then
        (case getChar (STORE c s) of
           (d, s) \<Rightarrow>
             if d = ord CHR ''='' then
               (case getChar (STORE d s) of
                  (e, s) \<Rightarrow>
                    if e = ord CHR ''='' then Some (TOKEN_EQUALS_CHECK, STORE e s)
                    else Some (TOKEN_EQUALS, ungetChar e s))
             else Some (TOKEN_ASSIGN, ungetChar d s))
      else if c = ord CHR ''!'' then
        (case getChar (STORE c s) of
           (d, s) \<Rightarrow>
             if d = ord CHR ''!'' then Some (TOKEN_NOT_NOT, STORE d s)
             else if d = ord CHR ''='' then
               (case getChar (STORE d s) of
                  (e, s) \<Rightarrow>
                    if e = ord CHR ''='' then Some (TOKEN_NOT_EQUALS_CHECK, STORE e s)
                    else Some (TOKEN_NOT_EQUALS, ungetChar e s))
             else Some (TOKEN_NOT, ungetChar d s))
      else if c = ord CHR ''~'' then Some (TOKEN_COMPLEMENT, STORE c s)
      else None)"

text \<open>
  The rest of \<^verbatim>\<open>parseNextToken\<close> after the character \<open>c\<close> has been read: the bracket,
  the string literals, the numbers, the identifiers and keywords, and at last the single
  character that is its own token.
\<close>

definition scanToken ::
    "nat \<Rightarrow> UParserValue \<Rightarrow> int \<Rightarrow> QMLScope \<Rightarrow> (int \<times> UParserValue \<times> QMLScope) option" where
  "scanToken fuel LVAL c s =
     (case scanOperator c s of
        Some (iToken, s) \<Rightarrow> Some (iToken, LVAL, s)
      | None \<Rightarrow>
        if c = ord CHR ''['' then
          (case bracketLoop fuel (STORE c s) of
             None \<Rightarrow> None
           | Some (True, s) \<Rightarrow> Some (TOKEN_DIMENSION, LVAL, s)
           | Some (False, s) \<Rightarrow> Some (c, LVAL, s))
        else if c = ord (CHR 0x22) then
          (case literalLoop (ord (CHR 0x22)) s of
             (True, s) \<Rightarrow> Some (0, LVAL, s)
           | (False, s) \<Rightarrow> Some (TOKEN_LITERAL, String (m_pCurrentTokenValue s), s))
        else if c = ord (CHR 0x27) then
          (case literalLoop (ord (CHR 0x27)) s of
             (True, s) \<Rightarrow> Some (0, LVAL, s)
           | (False, s) \<Rightarrow> Some (TOKEN_LITERAL, String (m_pCurrentTokenValue s), s))
        else if c = ord CHR ''.'' then
          (case getChar s of
             (d, s) \<Rightarrow>
               if isdigit d then
                 Some (parseNumber LVAL
                         (STORE d (STORE c (STORE (ord CHR ''0'') (s\<lparr>m_bParsingFloat := True\<rparr>)))))
               else Some (c, LVAL, ungetChar d (STORE c s)))
        else if isdigit c then
          (if c = ord CHR ''0'' then
             (case getChar s of
                (d, s) \<Rightarrow>
                  if d = ord CHR ''x'' \<or> d = ord CHR ''X''
                  then Some (parseNumber LVAL ((STORE d (STORE c s))\<lparr>m_bParsingHexa := True\<rparr>))
                  else Some (parseNumber LVAL (STORE c (ungetChar d s))))
           else Some (parseNumber LVAL (STORE c s)))
        else if isalpha c \<or> c = ord CHR ''_'' \<or> c = ord CHR ''$'' then
          (case identifierLoop c s of
             (c', s) \<Rightarrow>
               (let s = ungetChar c' s in
                if toLower (m_pCurrentTokenValue s) = ''true''
                then Some (TOKEN_BOOLCONSTANT, Boolean True, s)
                else if toLower (m_pCurrentTokenValue s) = ''false''
                then Some (TOKEN_BOOLCONSTANT, Boolean False, s)
                else if containsKey m_mTokens (m_pCurrentTokenValue s)
                then Some (the (map_of m_mTokens (m_pCurrentTokenValue s)), LVAL, s)
                else Some (TOKEN_IDENTIFIER, String (m_pCurrentTokenValue s), s)))
        else Some (c, LVAL, STORE c s))"

text \<open>
  \<^verbatim>\<open>QMLTreeContext::parseNextToken\<close>. The result is \<open>None\<close> when one of its two loops
  on fuel is still running after \<open>fuel\<close> turns; otherwise it is the token returned, the
  value left in \<open>LVAL\<close> and the scope.
\<close>

definition parseNextToken ::
    "nat \<Rightarrow> UParserValue \<Rightarrow> QMLScope \<Rightarrow> (int \<times> UParserValue \<times> QMLScope) option" where
  "parseNextToken fuel LVAL s =
     (let s = s\<lparr>m_pCurrentTokenValue := []\<rparr>;
          s = s\<lparr>m_iCommentLevel := 0, m_bParsingFloat := False, m_bParsingHexa := False\<rparr>
      in case skipWhites fuel s of
           None \<Rightarrow> None
         | Some (Return0, s) \<Rightarrow> Some (0, LVAL, s)
         | Some (Break, s) \<Rightarrow>
             (let s = s\<lparr>m_iPreviousLine := m_iLine s, m_iPreviousColumn := m_iColumn s\<rparr>
              in case getChar s of
                   (c, s) \<Rightarrow>
                     if c = EOF then Some (0, LVAL, s)
                     else scanToken fuel LVAL c s))"

text \<open>
  The text of a scope that is not read yet, and the scope after \<open>n\<close> more characters
  have been read from it, each by \<open>getChar\<close>.
\<close>

definition unread :: "QMLScope \<Rightarrow> char list" where
  "unread s = drop (m_iPos s) (m_sStream s)"

fun readOver :: "nat \<Rightarrow> QMLScope \<Rightarrow> QMLScope" where
  "readOver 0 s = s"
| "readOver (Suc n) s = readOver n (snd (getChar s))"

section \<open>Parsing a file and analyzing it\<close>

text \<open>\<^verbatim>\<open>QMLTreeContext::fileByFileName\<close> adds the file when the context has none of that name.\<close>

definition fileByFileName :: "string \<Rightarrow> QMLTreeContext \<Rightarrow> QMLTreeContext" where
  "fileByFileName sFileName ctx =
     (if list_ex (\<lambda>pFile. fileName pFile = sFileName) (m_vFiles ctx) then ctx
      else ctx\<lparr>m_vFiles := m_vFiles ctx @ [QMLFile sFileName]\<rparr>)"

definition fileNamed :: "QMLTreeContext \<Rightarrow> string \<Rightarrow> QMLFile" where
  "fileNamed ctx sFileName =
     (case find (\<lambda>pFile. fileName pFile = sFileName) (m_vFiles ctx) of
        Some pFile \<Rightarrow> pFile
      | None \<Rightarrow> QMLFile sFileName)"

definition addFile :: "string \<Rightarrow> QMLTreeContext \<Rightarrow> QMLTreeContext" where
  "addFile sFileName ctx = fileByFileName sFileName ctx"

text \<open>\<open>SCOPE\<close> is the last scope of the stack.\<close>

definition SCOPE :: "QMLTreeContext \<Rightarrow> QMLScope" where
  "SCOPE ctx = last (m_sScopes ctx)"

definition setSCOPE :: "QMLScope \<Rightarrow> QMLTreeContext \<Rightarrow> QMLTreeContext" where
  "setSCOPE scope ctx = ctx\<lparr>m_sScopes := butlast (m_sScopes ctx) @ [scope]\<rparr>"

text \<open>\<^verbatim>\<open>QMLTreeContext::showError\<close>.\<close>

definition showError :: "string \<Rightarrow> QMLTreeContext \<Rightarrow> QMLTreeContext" where
  "showError sText ctx =
     (setSCOPE ((SCOPE ctx)\<lparr>m_eScopeError := peSyntaxError\<rparr>) ctx)
       \<lparr>m_eError := peSyntaxError,
        m_tErrorObject :=
          QMLAnalyzerError (m_pFile (SCOPE ctx)) (m_iColumn (SCOPE ctx), m_iLine (SCOPE ctx)) sText\<rparr>"

text \<open>
  The call \<^verbatim>\<open>yyparse(this)\<close>: the entities built go to the file of the scope; a syntax
  error is reported through \<open>showError\<close>, the scope standing where the parser stopped.
\<close>

definition setContents :: "string \<Rightarrow> QMLEntity list \<Rightarrow> QMLTreeContext \<Rightarrow> QMLTreeContext" where
  "setContents sFileName vContents ctx =
     ctx\<lparr>m_vFiles := map (\<lambda>pFile. if fileName pFile = sFileName
                                   then pFile\<lparr>fileContents := vContents\<rparr> else pFile)
                        (m_vFiles ctx)\<rparr>"

definition call_yyparse :: "Environment \<Rightarrow> QMLTreeContext \<Rightarrow> QMLTreeContext" where
  "call_yyparse env ctx =
     (let run = yyparse env (SCOPE ctx);
          ctx = setContents (m_pFile (SCOPE ctx)) (builtContents run) ctx
      in case syntaxError run of
           None \<Rightarrow> ctx
         | Some (sText, iLine, iColumn) \<Rightarrow>
             showError sText
               (setSCOPE ((SCOPE ctx)\<lparr>m_iLine := iLine, m_iColumn := iColumn\<rparr>) ctx))"

text \<open>\<^verbatim>\<open>QMLTreeContext::parse_Internal\<close>.\<close>

definition parse_Internal :: "Environment \<Rightarrow> QMLTreeContext \<Rightarrow> EParseError \<times> QMLTreeContext" where
  "parse_Internal env ctx =
     (let ctx = setSCOPE ((SCOPE ctx)\<lparr>m_eScopeError := peSuccess\<rparr>) ctx;
          ctx = call_yyparse env ctx
      in (m_eScopeError (SCOPE ctx), ctx))"

text \<open>
  \<^verbatim>\<open>QMLTreeContext::parse\<close>. The body of its loop, for the file at index \<open>i\<close>, and the
  loop over the files the context held when the loop began.
\<close>

definition parse_file :: "Environment \<Rightarrow> nat \<Rightarrow> QMLTreeContext \<Rightarrow> QMLTreeContext" where
  "parse_file env i ctx =
     (let pFile = m_vFiles ctx ! i in
      if parsed pFile = False then
        (let ctx = ctx\<lparr>m_sScopes := m_sScopes ctx
                       @ [QMLScope (fileName pFile) (readFile env (fileName pFile))]\<rparr>
         in case parse_Internal env ctx of
           (eError, ctx) \<Rightarrow>
             (let ctx = ctx\<lparr>m_eError := eError\<rparr>;
                  ctx = ctx\<lparr>m_sScopes := []\<rparr>;
                  pFile = m_vFiles ctx ! i;
                  pFile = solveSymbols pFile;
                  pFile = solveReferences pFile;
                  pFile = solveSymbolUsages pFile;
                  pFile = pFile\<lparr>parsed := True\<rparr>
              in ctx\<lparr>m_vFiles := (m_vFiles ctx)[i := pFile]\<rparr>))
      else ctx)"

definition parse :: "Environment \<Rightarrow> QMLTreeContext \<Rightarrow> EParseError \<times> QMLTreeContext" where
  "parse env ctx =
     (let ctx = ctx\<lparr>m_eError := peSuccess, m_tErrorObject := clearError\<rparr>;
          ctx = fold (parse_file env) [0 ..< length (m_vFiles ctx)] ctx
      in (m_eError ctx, ctx))"

text \<open>
  \<^verbatim>\<open>QMLAnalyzer::analyzeFile\<close>. Of the rewriting of the file the analyzer keeps, in
  \<open>m_lRewritten\<close>, that it wrote the file; the text written and the removal of the
  unreferenced symbols are not followed further.
\<close>

definition analyzeFile :: "Environment \<Rightarrow> string \<Rightarrow> QMLAnalyzer \<Rightarrow> QMLAnalyzer" where
  "analyzeFile env sFileName this =
     (let ctx = addFile sFileName (m_pContext this);
          ctx = ctx\<lparr>m_bIncludeImports := m_bIncludeImportsFlag this\<rparr>
      in case parse env ctx of
        (eError, ctx) \<Rightarrow>
          (let this = this\<lparr>m_pContext := ctx\<rparr> in
           if eError = peSuccess then
             (let pFile = fileNamed ctx sFileName;
                  this = runGrammar env sFileName pFile this
              in if m_bRewriteFiles this then
                   (if opensForWriting env sFileName
                    then this\<lparr>m_lRewritten := m_lRewritten this
                           @ [(sFileName, m_bRemoveUnreferencedSymbols this)]\<rparr>
                    else this)
                 else this)
           else this\<lparr>m_vErrors := m_vErrors this @ [m_tErrorObject ctx]\<rparr>))"

text \<open>
  The first part of \<^verbatim>\<open>QMLAnalyzer::analyze\<close>: the grammar is stored, the macros are
  read from it, the context is replaced by a new one and the list of errors is emptied.
\<close>

definition analyze_begin :: "CXMLNode \<Rightarrow> QMLAnalyzer \<Rightarrow> QMLAnalyzer" where
  "analyze_begin xGrammar this =
     this\<lparr>m_xGrammar := xGrammar, m_mMacros := parseMacros xGrammar,
          m_pContext := QMLTreeContext, m_vErrors := []\<rparr>"

text \<open>The analyzer as its constructor leaves it.\<close>

definition QMLAnalyzer :: QMLAnalyzer where
  "QMLAnalyzer =
     \<lparr>m_xGrammar = CXMLNode [] [] [], m_mMacros = [], m_vErrors = [],
      m_pContext = QMLTreeContext, m_bIncludeImportsFlag = False, m_bRewriteFiles = False,
      m_bRemoveUnreferencedSymbols = False, m_lRewritten = []\<rparr>"

text \<open>
  The loop of \<^verbatim>\<open>QMLAnalyzer::analyze_Recurse\<close>: \<open>lFiles\<close> are the full names of the files
  in the order in which the directory and its subfolders list them, no stop being
  requested, and \<^verbatim>\<open>analyzeFile\<close> runs on each in turn. \<^verbatim>\<open>QMLAnalyzer::analyze\<close> on a folder
  is its first part followed by this loop; on a single file \<open>lFiles\<close> is that file alone.
\<close>

definition analyze_Recurse :: "Environment \<Rightarrow> string list \<Rightarrow> QMLAnalyzer \<Rightarrow> QMLAnalyzer" where
  "analyze_Recurse env lFiles this = fold (analyzeFile env) lFiles this"

definition analyze :: "Environment \<Rightarrow> CXMLNode \<Rightarrow> string list \<Rightarrow> QMLAnalyzer \<Rightarrow> QMLAnalyzer" where
  "analyze env xGrammar lFiles this = analyze_Recurse env lFiles (analyze_begin xGrammar this)"

text \<open>
  What \<^verbatim>\<open>parse\<close> does to a file after \<^verbatim>\<open>parse_Internal\<close>: the three passes of the resolver
  and the \<open>parsed\<close> flag.
\<close>

definition resolved :: "QMLFile \<Rightarrow> QMLFile" where
  "resolved pFile = (solveSymbolUsages (solveReferences (solveSymbols pFile)))\<lparr>parsed := True\<rparr>"

section \<open>The predicate of a rule in the order of the specification's table\<close>

text \<open>
  The specification lists the attributes of a rule in a table: \<open>Value\<close>, \<open>RegExp\<close>,
  \<open>Class\<close>, \<open>List\<close>, \<open>Count\<close>, \<open>Type\<close>, \<open>Path\<close>, \<open>NestedCount\<close>, each with the
  predicate on which a \<open>Reject\<close> fires, and says that of several attributes set on one
  rule only the first listed applies. \<open>tablePredicate\<close> is that reading, written from the
  table and not from the source, to be compared with \<open>runGrammar_Reject\<close>.
\<close>

definition tablePredicate ::
    "Environment \<Rightarrow> string \<Rightarrow> string \<Rightarrow> QMLEntity \<Rightarrow> CXMLNode \<Rightarrow> QMLAnalyzer \<Rightarrow> bool" where
  "tablePredicate env sFileName sClassName pEntity xRule this =
     (let pMember = memberAt (members pEntity) (ruleMember this xRule);
          sMemberToString = stripQuotes (toString pMember)
      in if ruleAttr this xRule ''Value'' \<noteq> [] then
           sMemberToString = ruleAttr this xRule ''Value''
         else if ruleAttr this xRule ''RegExp'' \<noteq> [] then
           exactMatch env (ruleAttr this xRule ''RegExp'') sMemberToString
         else if ruleAttr this xRule ''Class'' \<noteq> [] then
           className pMember = ruleAttr this xRule ''Class''
         else if ruleAttr this xRule ''List'' \<noteq> [] then
           sMemberToString \<in> set (split (ruleAttr this xRule ''List''))
         else if ruleAttr this xRule ''Count'' \<noteq> [] then
           (case contents pMember of
              None \<Rightarrow> False
            | Some children \<Rightarrow> int (length children) > toInt (ruleAttr this xRule ''Count''))
         else if ruleAttr this xRule ''Type'' \<noteq> [] then
           valueType pMember = ruleAttr this xRule ''Type''
         else if ruleAttr this xRule ''Path'' \<noteq> [] then
           (ruleAttr this xRule ''Path'' = ''Exists'' \<and> pathExists env sFileName sMemberToString)
         else if ruleAttr this xRule ''NestedCount'' \<noteq> [] then
           runGrammar_CountNested sClassName pEntity > toInt (ruleAttr this xRule ''NestedCount'')
         else sMemberToString = ruleAttr this xRule ''Value'')"

section \<open>Values for the examples\<close>

text \<open>
  An environment in which a pattern without special characters matches the string equal
  to it and no other, no path exists, every file is empty and opens for writing, and the
  parser's run on every scope is the given one.
\<close>

definition exampleEnvironment :: "ParseRun \<Rightarrow> Environment" where
  "exampleEnvironment run =
     \<lparr>exactMatch = (\<lambda>sPattern s. s = sPattern),
      pathExists = (\<lambda>sFileName sPath. False),
      readFile = (\<lambda>sFileName. []),
      yyparse = (\<lambda>scope. run),
      opensForWriting = (\<lambda>sFileName. True)\<rparr>"

definition emptyRun :: ParseRun where
  "emptyRun = \<lparr>builtContents = [], syntaxError = None\<rparr>"

text \<open>An entity without members that is no complex entity, item or function.\<close>

definition simpleEntity :: "string \<Rightarrow> QPoint \<Rightarrow> string \<Rightarrow> QMLEntity" where
  "simpleEntity sClassName pPosition sToString =
     QMLEntity sClassName pPosition sToString [] [] None None None None"

text \<open>
  The property assignment \<open>name: content\<close> at a position: an entity of class
  \<open>QMLPropertyAssignment\<close> with the members \<open>content\<close> and \<open>name\<close>.
\<close>

definition propertyAssignment :: "QPoint \<Rightarrow> string \<Rightarrow> QMLEntity \<Rightarrow> QMLEntity" where
  "propertyAssignment pPosition sName pContent =
     QMLEntity ''QMLPropertyAssignment'' pPosition (sName @ '': '' @ toString pContent) []
       [(''content'', pContent),
        (''name'', simpleEntity ''QMLIdentifier'' pPosition sName)]
       None None None None"

text \<open>A rule document with the given \<open>Check\<close> blocks, and a rule without conditions.\<close>

definition grammarOf :: "CXMLNode list \<Rightarrow> CXMLNode" where
  "grammarOf vChecks = CXMLNode ''Root'' [] vChecks"

definition checkOf :: "string \<Rightarrow> CXMLNode list \<Rightarrow> CXMLNode" where
  "checkOf sClassName vRules = CXMLNode ''Check'' [(''Class'', sClassName)] vRules"

definition ruleOf :: "string \<Rightarrow> (string \<times> string) list \<Rightarrow> CXMLNode list \<Rightarrow> CXMLNode" where
  "ruleOf sTag vAttributes vConditions = CXMLNode sTag vAttributes vConditions"

text \<open>
  The analyzer after the first part of \<open>analyze\<close> on a document with the given blocks,
  and the assignment \<open>color: red\<close>.
\<close>

definition exampleAnalyzer :: "CXMLNode list \<Rightarrow> QMLAnalyzer" where
  "exampleAnalyzer vBlocks = analyze_begin (grammarOf vBlocks) QMLAnalyzer"

definition colorAssignment :: QMLEntity where
  "colorAssignment =
     propertyAssignment (4, 2) ''color'' (simpleEntity ''QMLIdentifier'' (11, 2) ''red'')"

text \<open>
  The item \<open>Rectangle { color: red }\<close>: a complex entity of class \<open>QMLItem\<close> whose
  only child is the assignment, with no unused property.
\<close>

definition rectangleItem :: QMLEntity where
  "rectangleItem =
     QMLEntity ''QMLItem'' (0, 0) ''Rectangle'' []
       [(''name'', simpleEntity ''QMLIdentifier'' (0, 0) ''Rectangle'')]
       (Some [colorAssignment]) (Some []) None None"

text \<open>The run of the parser that stops at a syntax error in line 3, column 7.\<close>

definition failedRun :: ParseRun where
  "failedRun = \<lparr>builtContents = [], syntaxError = Some (''syntax error'', 3, 7)\<rparr>"

text \<open>
  A project in which the parser stops at a syntax error in line 3, column 7 of the file
  \<open>a.qml\<close>, and reads every other file without error; in each file it has built the
  assignment \<open>color: red\<close>. The rule document rejects an assignment of the name
  \<open>color\<close>.
\<close>

definition projectEnvironment :: Environment where
  "projectEnvironment =
     \<lparr>exactMatch = (\<lambda>sPattern s. s = sPattern),
      pathExists = (\<lambda>sFileName sPath. False),
      readFile = (\<lambda>sFileName. []),
      yyparse = (\<lambda>scope.
        if m_pFile scope = ''a.qml''
        then \<lparr>builtContents = [colorAssignment], syntaxError = Some (''syntax error'', 3, 7)\<rparr>
        else \<lparr>builtContents = [colorAssignment], syntaxError = None\<rparr>),
      opensForWriting = (\<lambda>sFileName. True)\<rparr>"

definition colorGrammar :: "CXMLNode list" where
  "colorGrammar =
     [checkOf ''QMLPropertyAssignment''
        [ruleOf ''Reject'' [(''Member'', ''name''), (''Value'', ''color''), (''Text'', ''no color'')] []]]"

text \<open>
  The analyzer of that project after \<open>b.qml\<close> has been analyzed and \<open>c.qml\<close> has been
  added to the context, and the analyzer to whose new context \<open>a.qml\<close> and \<open>c.qml\<close> have
  been added, neither of them parsed yet.
\<close>

definition analyzedProject :: QMLAnalyzer where
  "analyzedProject =
     (let this = analyzeFile projectEnvironment ''b.qml'' (exampleAnalyzer colorGrammar)
      in this\<lparr>m_pContext := addFile ''c.qml'' (m_pContext this)\<rparr>)"

definition unparsedProject :: QMLAnalyzer where
  "unparsedProject =
     (let this = exampleAnalyzer colorGrammar
      in this\<lparr>m_pContext := addFile ''c.qml'' (addFile ''a.qml'' (m_pContext this))\<rparr>)"

section \<open>The predicate of a rule\<close>

text \<open>
  In each branch of the chain of \<^verbatim>\<open>runGrammar_Reject\<close> the rule fires on a test of the
  form \<^verbatim>\<open>p ^ bInverseLogic\<close>. \<open>selectedPredicate\<close> is that \<open>p\<close> for a rule without
  \<open>NestedCount\<close>: the left operand of the \<^verbatim>\<open>^\<close> in the branch that the chain takes on the
  entity, read from the source branch by branch. It is \<open>None\<close> where the chain reaches no
  such test: the member is not there or is null, the branch of \<open>Path\<close> is taken with a
  value other than \<open>Exists\<close>, or the branch of \<open>Count\<close> is taken on a member that is no
  complex entity.
\<close>

definition selectedPredicate ::
    "Environment \<Rightarrow> string \<Rightarrow> QMLEntity \<Rightarrow> CXMLNode \<Rightarrow> QMLAnalyzer \<Rightarrow> bool option" where
  "selectedPredicate env sFileName pEntity xRule this =
     (let sMember = ruleMember this xRule;
          sValue = ruleAttr this xRule ''Value'';
          sType = ruleAttr this xRule ''Type'';
          sCount = ruleAttr this xRule ''Count'';
          sRegExp = ruleAttr this xRule ''RegExp'';
          sPath = ruleAttr this xRule ''Path'';
          sList = ruleAttr this xRule ''List'';
          sClass = ruleAttr this xRule ''Class'';
          mMembers = members pEntity
      in
      if containsKey mMembers sMember \<and> memberAt mMembers sMember \<noteq> nullptr then
        (let sMemberToString = stripQuotes (toString (memberAt mMembers sMember));
             sMemberClass = className (memberAt mMembers sMember)
         in
         if sList \<noteq> [] then Some (sMemberToString \<in> set (split sList))
         else if sClass \<noteq> [] then Some (sMemberClass = sClass)
         else if sPath \<noteq> [] then
           (if sPath = ''Exists'' then Some (pathExists env sFileName sMemberToString = True)
            else None)
         else if sRegExp \<noteq> [] \<and> sMemberToString \<noteq> [] then
           Some (exactMatch env sRegExp sMemberToString)
         else if sCount \<noteq> [] then
           (case contents (memberAt mMembers sMember) of
              None \<Rightarrow> None
            | Some pComplexContents \<Rightarrow>
                Some (int (length pComplexContents) > toInt sCount))
         else if sType \<noteq> [] then Some (valueType (memberAt mMembers sMember) = sType)
         else Some (sMemberToString = sValue))
      else None)"


section \<open>The diagnostics of a traversal, in closed form\<close>

text \<open>
  What a traversal appends to the list of errors, written as the specification describes
  it and not as the loops of the source compute it: for one rule, the diagnostic when the
  rule fires; for one \<open>Check\<close> block of the class of the entity, the diagnostics of
  its \<open>Reject\<close> rules followed by those of its \<open>Accept\<close> rules, each rule counted
  whatever the others did; for one entity, the blocks in the order of the document; for
  a subtree, the entity first, and below it the members and the ordered children only
  when no rule fired on the entity. They are compared with \<open>runGrammar_Recurse\<close> below.
\<close>

definition ruleDiagnostics ::
    "Environment \<Rightarrow> string \<Rightarrow> string \<Rightarrow> QMLEntity \<Rightarrow> QMLAnalyzer \<Rightarrow> bool \<Rightarrow> CXMLNode
       \<Rightarrow> QMLAnalyzerError list" where
  "ruleDiagnostics env sFileName sClassName pEntity this bInverseLogic xRule =
     (if fst (runGrammar_Reject env sFileName sClassName pEntity xRule bInverseLogic this)
      then [QMLAnalyzerError sFileName (position pEntity) (ruleAttr this xRule ''Text'')]
      else [])"

definition checkDiagnostics ::
    "Environment \<Rightarrow> string \<Rightarrow> QMLEntity \<Rightarrow> QMLAnalyzer \<Rightarrow> CXMLNode \<Rightarrow> QMLAnalyzerError list" where
  "checkDiagnostics env sFileName pEntity this xCheck =
     (if className pEntity = attr xCheck ''Class'' then
        concat (map (ruleDiagnostics env sFileName (attr xCheck ''Class'') pEntity this False)
                  (getNodesByTagName xCheck ''Reject''))
        @ concat (map (ruleDiagnostics env sFileName (attr xCheck ''Class'') pEntity this True)
                    (getNodesByTagName xCheck ''Accept''))
      else [])"

definition entityDiagnostics ::
    "Environment \<Rightarrow> string \<Rightarrow> QMLEntity \<Rightarrow> QMLAnalyzer \<Rightarrow> QMLAnalyzerError list" where
  "entityDiagnostics env sFileName pEntity this =
     concat (map (checkDiagnostics env sFileName pEntity this)
               (getNodesByTagName (m_xGrammar this) ''Check''))"

definition unreferencedDiagnostics ::
    "string \<Rightarrow> string \<Rightarrow> (string \<times> QPoint) list option \<Rightarrow> QMLAnalyzerError list" where
  "unreferencedDiagnostics sFileName sText unused =
     (case unused of
        None \<Rightarrow> []
      | Some m \<Rightarrow> map (\<lambda>(sKey, pPosition). QMLAnalyzerError sFileName pPosition sText) m)"

fun subtreeDiagnostics ::
    "Environment \<Rightarrow> string \<Rightarrow> QMLAnalyzer \<Rightarrow> QMLEntity \<Rightarrow> QMLAnalyzerError list" where
  "subtreeDiagnostics env sFileName this nullptr = []"
| "subtreeDiagnostics env sFileName this (QMLEntity cn pos str vt mMembers cont up uv ua) =
     unreferencedDiagnostics sFileName ''Unreferenced property'' up
     @ unreferencedDiagnostics sFileName ''Unreferenced variable'' uv
     @ unreferencedDiagnostics sFileName ''Unreferenced parameter'' ua
     @ entityDiagnostics env sFileName (QMLEntity cn pos str vt mMembers cont up uv ua) this
     @ (if entityDiagnostics env sFileName (QMLEntity cn pos str vt mMembers cont up uv ua) this = []
        then concat (map (\<lambda>(sKey, pMember). subtreeDiagnostics env sFileName this pMember) mMembers)
             @ (case cont of
                  None \<Rightarrow> []
                | Some children \<Rightarrow> concat (map (subtreeDiagnostics env sFileName this) children))
        else [])"

section \<open>Properties\<close>

subsection \<open>Macro expansion\<close>

text \<open>
  A text that does not contain the searched string is left as it is by
  \<^verbatim>\<open>QString::replace\<close>, so the guard \<^verbatim>\<open>sResult.contains(sFullMacroName)\<close> of
  \<^verbatim>\<open>processMacros\<close> changes nothing by itself.
\<close>

lemma replace_absent:
  "b \<noteq> [] \<Longrightarrow> \<not> contains s b \<Longrightarrow> replace s b a = s"
proof (induction s)
  case Nil
  then show ?case by (simp add: replace.simps)
next
  case (Cons c cs)
  then show ?case by (subst replace.simps) simp
qed

lemma fullMacroName_nonempty: "fullMacroName sMacro \<noteq> []"
  by (simp add: fullMacroName_def)

lemma processMacros_step_absent:
  "\<not> contains s (fullMacroName k) \<Longrightarrow> processMacros_step ms k s = s"
  by (simp add: processMacros_step_def)

lemma fold_step_absent:
  "(\<And>k. k \<in> set ks \<Longrightarrow> \<not> contains s (fullMacroName k)) \<Longrightarrow>
     fold (processMacros_step ms) ks s = s"
  by (induction ks) (simp_all add: processMacros_step_absent)

lemma processMacros_step_present:
  "map_of ms k = Some v \<Longrightarrow>
     processMacros_step ms k s = (if v = [] then s else replace s (fullMacroName k) v)"
  using replace_absent [OF fullMacroName_nonempty, of s k v]
  by (simp add: processMacros_step_def qmap_string_def)

text \<open>
  Claim C8, as amended. Let \<open>sName\<close> be a macro of the table whose value contains no
  \<open>$\<close>, and let no other macro of the table be named in the text, before or after the
  expansion of \<open>sName\<close>. When the value is not empty, \<^verbatim>\<open>processMacros\<close> yields the text
  with every occurrence of \<open>$sName$\<close> replaced by the value, in one pass from left to
  right. When the value is empty the text is returned unchanged: the occurrences of
  \<open>$sName$\<close> stay.
\<close>

theorem C8_macro_expansion:
  assumes "distinct (keys mMacros)"
    and "map_of mMacros sName = Some sValue"
    and "CHR ''$'' \<notin> set sValue"
    and "sExpanded = (if sValue = [] then sText else replace sText (fullMacroName sName) sValue)"
    and "\<forall>k \<in> set (keys mMacros). k \<noteq> sName \<longrightarrow>
           \<not> contains sText (fullMacroName k) \<and> \<not> contains sExpanded (fullMacroName k)"
  shows "processMacros mMacros sText = sExpanded"
proof -
  have "sName \<in> set (keys mMacros)"
    using assms(2) by (auto simp: keys_def dest: map_of_SomeD intro: rev_image_eqI)
  then obtain xs ys where split: "keys mMacros = xs @ sName # ys"
    by (auto dest: split_list)
  with assms(1) have notin: "sName \<notin> set xs" "sName \<notin> set ys" by auto
  have "fold (processMacros_step mMacros) xs sText = sText"
    using assms(5) notin split by (intro fold_step_absent) auto
  moreover have "processMacros_step mMacros sName sText = sExpanded"
    using processMacros_step_present [OF assms(2)] assms(4) by simp
  moreover have "fold (processMacros_step mMacros) ys sExpanded = sExpanded"
    using assms(5) notin split by (intro fold_step_absent) auto
  ultimately show ?thesis by (simp add: processMacros_def split)
qed

text \<open>The theorem of C8 at a table of two macros.\<close>

theorem C8_macro_expansion_witness:
  "distinct (keys [(''BAR'', ''q''), (''FOO'', ''x y'')])
   \<and> map_of [(''BAR'', ''q''), (''FOO'', ''x y'')] ''FOO'' = Some ''x y''
   \<and> CHR ''$'' \<notin> set ''x y''
   \<and> replace ''a$FOO$b$FOO$'' (fullMacroName ''FOO'') ''x y'' = ''ax ybx y''
   \<and> processMacros [(''BAR'', ''q''), (''FOO'', ''x y'')] ''a$FOO$b$FOO$'' = ''ax ybx y''"
proof -
  have r: "replace ''a$FOO$b$FOO$'' (fullMacroName ''FOO'') ''x y'' = ''ax ybx y''"
    by (simp add: fullMacroName_def replace.simps)
  have "processMacros [(''BAR'', ''q''), (''FOO'', ''x y'')] ''a$FOO$b$FOO$'' = ''ax ybx y''"
    by (rule C8_macro_expansion [where sName = "''FOO''" and sValue = "''x y''"])
      (simp_all add: keys_def r, simp_all add: fullMacroName_def)
  then show ?thesis using r by (simp add: keys_def)
qed

text \<open>
  Claim C8 as stated fails for the empty value: with \<^verbatim>\<open><Macro Name="FOO" Value=""/>\<close>
  the text \<open>a$FOO$b\<close> is returned as it is, where replacing \<open>$FOO$\<close> by the value
  gives \<open>ab\<close>.
\<close>

theorem C8_empty_value_counterexample:
  "map_of (parseMacros (CXMLNode ''Root'' []
       [CXMLNode ''Macro'' [(''Name'', ''FOO''), (''Value'', [])] []])) ''FOO'' = Some []
   \<and> processMacros (parseMacros (CXMLNode ''Root'' []
       [CXMLNode ''Macro'' [(''Name'', ''FOO''), (''Value'', [])] []])) ''a$FOO$b'' = ''a$FOO$b''
   \<and> replace ''a$FOO$b'' (fullMacroName ''FOO'') [] = ''ab''"
  by (simp add: parseMacros_def getNodesByTagName_def attr_def processMacros_def keys_def
      processMacros_step_def qmap_string_def fullMacroName_def replace.simps)

subsection \<open>One rule on one entity\<close>

text \<open>
  \<open>runGrammar_Reject\<close> either fires, and then appends one diagnostic with the position
  of the entity and the text of the rule, or leaves the analyzer as it was.
\<close>

lemma if_mem: "a \<in> S \<Longrightarrow> b \<in> S \<Longrightarrow> (if c then a else b) \<in> S"
  by simp

lemma case_option_mem:
  "a \<in> S \<Longrightarrow> (\<And>x. f x \<in> S) \<Longrightarrow> (case v of None \<Rightarrow> a | Some x \<Rightarrow> f x) \<in> S"
  by (simp split: option.split)

lemma runGrammar_Reject_cases:
  "runGrammar_Reject env sFileName sClassName pEntity xRule bInv this \<in>
     {(True, outputError sFileName (position pEntity) (ruleAttr this xRule ''Text'') this),
      (False, this)}"
  unfolding runGrammar_Reject_def Let_def
  by (intro if_mem case_option_mem) simp_all

lemma runGrammar_Reject_frame:
  "snd (runGrammar_Reject env sFileName sClassName pEntity xRule bInv this) =
     (if fst (runGrammar_Reject env sFileName sClassName pEntity xRule bInv this)
      then outputError sFileName (position pEntity) (ruleAttr this xRule ''Text'') this
      else this)"
  using runGrammar_Reject_cases [of env sFileName sClassName pEntity xRule bInv this]
  by auto

lemma runGrammar_Reject_errors:
  "m_vErrors (snd (runGrammar_Reject env sFileName sClassName pEntity xRule bInv this)) =
     m_vErrors this @
       (if fst (runGrammar_Reject env sFileName sClassName pEntity xRule bInv this)
        then [QMLAnalyzerError sFileName (position pEntity) (ruleAttr this xRule ''Text'')]
        else [])"
  by (simp add: runGrammar_Reject_frame outputError_def)

text \<open>
  The branches of the chain of \<open>runGrammar_Reject\<close>, one lemma for each. The rule has no
  \<open>NestedCount\<close>, its conditions hold and its \<open>Member\<close> names a member that is there.
\<close>

lemma runGrammar_Reject_list:
  assumes "runGrammar_SatisfiesConditions sFileName sClassName pEntity xRule"
    and "ruleAttr this xRule ''NestedCount'' = []"
    and "containsKey (members pEntity) (ruleMember this xRule)"
    and "memberAt (members pEntity) (ruleMember this xRule) \<noteq> nullptr"
    and "pMember = memberAt (members pEntity) (ruleMember this xRule)"
    and "sMemberToString = stripQuotes (toString pMember)"
    and "ruleAttr this xRule ''List'' \<noteq> []"
  shows "fst (runGrammar_Reject env sFileName sClassName pEntity xRule bInv this) =
     ((sMemberToString \<in> set (split (ruleAttr this xRule ''List''))) \<noteq> bInv)"
  using assms by (simp add: runGrammar_Reject_def Let_def split: option.split)

lemma runGrammar_Reject_class:
  assumes "runGrammar_SatisfiesConditions sFileName sClassName pEntity xRule"
    and "ruleAttr this xRule ''NestedCount'' = []"
    and "containsKey (members pEntity) (ruleMember this xRule)"
    and "memberAt (members pEntity) (ruleMember this xRule) \<noteq> nullptr"
    and "pMember = memberAt (members pEntity) (ruleMember this xRule)"
    and "sMemberToString = stripQuotes (toString pMember)"
    and "ruleAttr this xRule ''List'' = []"
    and "ruleAttr this xRule ''Class'' \<noteq> []"
  shows "fst (runGrammar_Reject env sFileName sClassName pEntity xRule bInv this) =
     ((className pMember = ruleAttr this xRule ''Class'') \<noteq> bInv)"
  using assms by (simp add: runGrammar_Reject_def Let_def split: option.split)

lemma runGrammar_Reject_path:
  assumes "runGrammar_SatisfiesConditions sFileName sClassName pEntity xRule"
    and "ruleAttr this xRule ''NestedCount'' = []"
    and "containsKey (members pEntity) (ruleMember this xRule)"
    and "memberAt (members pEntity) (ruleMember this xRule) \<noteq> nullptr"
    and "pMember = memberAt (members pEntity) (ruleMember this xRule)"
    and "sMemberToString = stripQuotes (toString pMember)"
    and "ruleAttr this xRule ''List'' = []"
    and "ruleAttr this xRule ''Class'' = []"
    and "ruleAttr this xRule ''Path'' \<noteq> []"
  shows "fst (runGrammar_Reject env sFileName sClassName pEntity xRule bInv this) =
     (ruleAttr this xRule ''Path'' = ''Exists'' \<and> (pathExists env sFileName sMemberToString \<noteq> bInv))"
  using assms by (simp add: runGrammar_Reject_def Let_def split: option.split)

lemma runGrammar_Reject_regexp:
  assumes "runGrammar_SatisfiesConditions sFileName sClassName pEntity xRule"
    and "ruleAttr this xRule ''NestedCount'' = []"
    and "containsKey (members pEntity) (ruleMember this xRule)"
    and "memberAt (members pEntity) (ruleMember this xRule) \<noteq> nullptr"
    and "pMember = memberAt (members pEntity) (ruleMember this xRule)"
    and "sMemberToString = stripQuotes (toString pMember)"
    and "ruleAttr this xRule ''List'' = []"
    and "ruleAttr this xRule ''Class'' = []"
    and "ruleAttr this xRule ''Path'' = []"
    and "ruleAttr this xRule ''RegExp'' \<noteq> []"
    and "sMemberToString \<noteq> []"
  shows "fst (runGrammar_Reject env sFileName sClassName pEntity xRule bInv this) =
     (exactMatch env (ruleAttr this xRule ''RegExp'') sMemberToString \<noteq> bInv)"
  using assms by (simp add: runGrammar_Reject_def Let_def split: option.split)

lemma runGrammar_Reject_count:
  assumes "runGrammar_SatisfiesConditions sFileName sClassName pEntity xRule"
    and "ruleAttr this xRule ''NestedCount'' = []"
    and "containsKey (members pEntity) (ruleMember this xRule)"
    and "memberAt (members pEntity) (ruleMember this xRule) \<noteq> nullptr"
    and "pMember = memberAt (members pEntity) (ruleMember this xRule)"
    and "sMemberToString = stripQuotes (toString pMember)"
    and "ruleAttr this xRule ''List'' = []"
    and "ruleAttr this xRule ''Class'' = []"
    and "ruleAttr this xRule ''Path'' = []"
    and "ruleAttr this xRule ''RegExp'' = [] \<or> sMemberToString = []"
    and "ruleAttr this xRule ''Count'' \<noteq> []"
  shows "fst (runGrammar_Reject env sFileName sClassName pEntity xRule bInv this) =
     (case contents pMember of None \<Rightarrow> False
        | Some pComplexContents \<Rightarrow>
            (int (length pComplexContents) > toInt (ruleAttr this xRule ''Count'')) \<noteq> bInv)"
  using assms by (simp add: runGrammar_Reject_def Let_def split: option.split)

lemma runGrammar_Reject_type:
  assumes "runGrammar_SatisfiesConditions sFileName sClassName pEntity xRule"
    and "ruleAttr this xRule ''NestedCount'' = []"
    and "containsKey (members pEntity) (ruleMember this xRule)"
    and "memberAt (members pEntity) (ruleMember this xRule) \<noteq> nullptr"
    and "pMember = memberAt (members pEntity) (ruleMember this xRule)"
    and "sMemberToString = stripQuotes (toString pMember)"
    and "ruleAttr this xRule ''List'' = []"
    and "ruleAttr this xRule ''Class'' = []"
    and "ruleAttr this xRule ''Path'' = []"
    and "ruleAttr this xRule ''RegExp'' = [] \<or> sMemberToString = []"
    and "ruleAttr this xRule ''Count'' = []"
    and "ruleAttr this xRule ''Type'' \<noteq> []"
  shows "fst (runGrammar_Reject env sFileName sClassName pEntity xRule bInv this) =
     ((valueType pMember = ruleAttr this xRule ''Type'') \<noteq> bInv)"
  using assms by (simp add: runGrammar_Reject_def Let_def split: option.split)

lemma runGrammar_Reject_value:
  assumes "runGrammar_SatisfiesConditions sFileName sClassName pEntity xRule"
    and "ruleAttr this xRule ''NestedCount'' = []"
    and "containsKey (members pEntity) (ruleMember this xRule)"
    and "memberAt (members pEntity) (ruleMember this xRule) \<noteq> nullptr"
    and "pMember = memberAt (members pEntity) (ruleMember this xRule)"
    and "sMemberToString = stripQuotes (toString pMember)"
    and "ruleAttr this xRule ''List'' = []"
    and "ruleAttr this xRule ''Class'' = []"
    and "ruleAttr this xRule ''Path'' = []"
    and "ruleAttr this xRule ''RegExp'' = [] \<or> sMemberToString = []"
    and "ruleAttr this xRule ''Count'' = []"
    and "ruleAttr this xRule ''Type'' = []"
  shows "fst (runGrammar_Reject env sFileName sClassName pEntity xRule bInv this) =
     ((sMemberToString = ruleAttr this xRule ''Value'') \<noteq> bInv)"
  using assms by (simp add: runGrammar_Reject_def Let_def split: option.split)

text \<open>
  Claim C3, as amended. For a rule without \<open>NestedCount\<close> whose conditions hold and whose
  \<open>Member\<close> names a member that is there, only one attribute decides whether the rule
  fires, the first that is set in the order of the chain of the code: \<open>List\<close>, then
  \<open>Class\<close>, then \<open>Path\<close>, then \<open>RegExp\<close> (passed over when the string of the member is
  empty), then \<open>Count\<close>, then \<open>Type\<close>, and \<open>Value\<close> last. Each line of the theorem
  names the attributes before the deciding one as unset and says nothing of those after
  it: they have no effect.
\<close>

theorem C3_precedence_of_checks:
  assumes "runGrammar_SatisfiesConditions sFileName sClassName pEntity xRule"
    and "ruleAttr this xRule ''NestedCount'' = []"
    and "containsKey (members pEntity) (ruleMember this xRule)"
    and "memberAt (members pEntity) (ruleMember this xRule) \<noteq> nullptr"
    and "pMember = memberAt (members pEntity) (ruleMember this xRule)"
    and "sMemberToString = stripQuotes (toString pMember)"
    and "bFired = fst (runGrammar_Reject env sFileName sClassName pEntity xRule bInv this)"
  shows "(ruleAttr this xRule ''List'' \<noteq> [] \<longrightarrow>
        bFired = ((sMemberToString \<in> set (split (ruleAttr this xRule ''List''))) \<noteq> bInv))
     \<and> (ruleAttr this xRule ''List'' = [] \<and> ruleAttr this xRule ''Class'' \<noteq> [] \<longrightarrow>
        bFired = ((className pMember = ruleAttr this xRule ''Class'') \<noteq> bInv))
     \<and> (ruleAttr this xRule ''List'' = [] \<and> ruleAttr this xRule ''Class'' = [] \<and> ruleAttr this xRule ''Path'' \<noteq> [] \<longrightarrow>
        bFired = (ruleAttr this xRule ''Path'' = ''Exists'' \<and> (pathExists env sFileName sMemberToString \<noteq> bInv)))
     \<and> (ruleAttr this xRule ''List'' = [] \<and> ruleAttr this xRule ''Class'' = [] \<and> ruleAttr this xRule ''Path'' = [] \<and> ruleAttr this xRule ''RegExp'' \<noteq> [] \<and> sMemberToString \<noteq> [] \<longrightarrow>
        bFired = (exactMatch env (ruleAttr this xRule ''RegExp'') sMemberToString \<noteq> bInv))
     \<and> (ruleAttr this xRule ''List'' = [] \<and> ruleAttr this xRule ''Class'' = [] \<and> ruleAttr this xRule ''Path'' = [] \<and> (ruleAttr this xRule ''RegExp'' = [] \<or> sMemberToString = []) \<and> ruleAttr this xRule ''Count'' \<noteq> [] \<longrightarrow>
        bFired = (case contents pMember of None \<Rightarrow> False
            | Some pComplexContents \<Rightarrow>
                (int (length pComplexContents) > toInt (ruleAttr this xRule ''Count'')) \<noteq> bInv))
     \<and> (ruleAttr this xRule ''List'' = [] \<and> ruleAttr this xRule ''Class'' = [] \<and> ruleAttr this xRule ''Path'' = [] \<and> (ruleAttr this xRule ''RegExp'' = [] \<or> sMemberToString = []) \<and> ruleAttr this xRule ''Count'' = [] \<and> ruleAttr this xRule ''Type'' \<noteq> [] \<longrightarrow>
        bFired = ((valueType pMember = ruleAttr this xRule ''Type'') \<noteq> bInv))
     \<and> (ruleAttr this xRule ''List'' = [] \<and> ruleAttr this xRule ''Class'' = [] \<and> ruleAttr this xRule ''Path'' = [] \<and> (ruleAttr this xRule ''RegExp'' = [] \<or> sMemberToString = []) \<and> ruleAttr this xRule ''Count'' = [] \<and> ruleAttr this xRule ''Type'' = [] \<longrightarrow>
        bFired = ((sMemberToString = ruleAttr this xRule ''Value'') \<noteq> bInv))"
proof (intro conjI impI)
  assume h: "ruleAttr this xRule ''List'' \<noteq> []"
  show "bFired = ((sMemberToString \<in> set (split (ruleAttr this xRule ''List''))) \<noteq> bInv)"
    unfolding assms(7)
    by (rule runGrammar_Reject_list [OF assms(1-6)]) (use h in auto)
next
  assume h: "ruleAttr this xRule ''List'' = [] \<and> ruleAttr this xRule ''Class'' \<noteq> []"
  show "bFired = ((className pMember = ruleAttr this xRule ''Class'') \<noteq> bInv)"
    unfolding assms(7)
    by (rule runGrammar_Reject_class [OF assms(1-6)]) (use h in auto)
next
  assume h: "ruleAttr this xRule ''List'' = [] \<and> ruleAttr this xRule ''Class'' = [] \<and> ruleAttr this xRule ''Path'' \<noteq> []"
  show "bFired = (ruleAttr this xRule ''Path'' = ''Exists'' \<and> (pathExists env sFileName sMemberToString \<noteq> bInv))"
    unfolding assms(7)
    by (rule runGrammar_Reject_path [OF assms(1-6)]) (use h in auto)
next
  assume h: "ruleAttr this xRule ''List'' = [] \<and> ruleAttr this xRule ''Class'' = [] \<and> ruleAttr this xRule ''Path'' = [] \<and> ruleAttr this xRule ''RegExp'' \<noteq> [] \<and> sMemberToString \<noteq> []"
  show "bFired = (exactMatch env (ruleAttr this xRule ''RegExp'') sMemberToString \<noteq> bInv)"
    unfolding assms(7)
    by (rule runGrammar_Reject_regexp [OF assms(1-6)]) (use h in auto)
next
  assume h: "ruleAttr this xRule ''List'' = [] \<and> ruleAttr this xRule ''Class'' = [] \<and> ruleAttr this xRule ''Path'' = [] \<and> (ruleAttr this xRule ''RegExp'' = [] \<or> sMemberToString = []) \<and> ruleAttr this xRule ''Count'' \<noteq> []"
  show "bFired = (case contents pMember of None \<Rightarrow> False
            | Some pComplexContents \<Rightarrow>
                (int (length pComplexContents) > toInt (ruleAttr this xRule ''Count'')) \<noteq> bInv)"
    unfolding assms(7)
    by (rule runGrammar_Reject_count [OF assms(1-6)]) (use h in auto)
next
  assume h: "ruleAttr this xRule ''List'' = [] \<and> ruleAttr this xRule ''Class'' = [] \<and> ruleAttr this xRule ''Path'' = [] \<and> (ruleAttr this xRule ''RegExp'' = [] \<or> sMemberToString = []) \<and> ruleAttr this xRule ''Count'' = [] \<and> ruleAttr this xRule ''Type'' \<noteq> []"
  show "bFired = ((valueType pMember = ruleAttr this xRule ''Type'') \<noteq> bInv)"
    unfolding assms(7)
    by (rule runGrammar_Reject_type [OF assms(1-6)]) (use h in auto)
next
  assume h: "ruleAttr this xRule ''List'' = [] \<and> ruleAttr this xRule ''Class'' = [] \<and> ruleAttr this xRule ''Path'' = [] \<and> (ruleAttr this xRule ''RegExp'' = [] \<or> sMemberToString = []) \<and> ruleAttr this xRule ''Count'' = [] \<and> ruleAttr this xRule ''Type'' = []"
  show "bFired = ((sMemberToString = ruleAttr this xRule ''Value'') \<noteq> bInv)"
    unfolding assms(7)
    by (rule runGrammar_Reject_value [OF assms(1-6)]) (use h in auto)
qed

text \<open>
  The theorem of C3 at a \<open>Reject\<close> rule that sets both \<open>Value\<close> and \<open>List\<close>: the list
  decides, and the rule does not fire on the name \<open>color\<close>.
\<close>

theorem C3_precedence_of_checks_witness:
  "runGrammar_SatisfiesConditions ''a.qml'' ''QMLPropertyAssignment'' colorAssignment
     (ruleOf ''Reject'' [(''Member'', ''name''), (''Value'', ''color''),
        (''List'', ''width,height''), (''Text'', ''T'')] [])
   \<and> ruleAttr (exampleAnalyzer [])
        (ruleOf ''Reject'' [(''Member'', ''name''), (''Value'', ''color''),
           (''List'', ''width,height''), (''Text'', ''T'')] []) ''List'' = ''width,height''
   \<and> stripQuotes (toString (memberAt (members colorAssignment) ''name'')) = ''color''
   \<and> split ''width,height'' = [''width'', ''height'']
   \<and> fst (runGrammar_Reject (exampleEnvironment emptyRun) ''a.qml'' ''QMLPropertyAssignment''
        colorAssignment
        (ruleOf ''Reject'' [(''Member'', ''name''), (''Value'', ''color''),
           (''List'', ''width,height''), (''Text'', ''T'')] [])
        False (exampleAnalyzer [])) = False"
proof -
  let ?rule = "ruleOf ''Reject'' [(''Member'', ''name''), (''Value'', ''color''),
        (''List'', ''width,height''), (''Text'', ''T'')] []"
  let ?a = "exampleAnalyzer []"
  have h1: "runGrammar_SatisfiesConditions ''a.qml'' ''QMLPropertyAssignment'' colorAssignment ?rule"
    by code_simp
  have h2: "ruleAttr ?a ?rule ''NestedCount'' = []" by code_simp
  have m: "ruleMember ?a ?rule = ''name''" by code_simp
  have h3: "containsKey (members colorAssignment) (ruleMember ?a ?rule)" by code_simp
  have h4: "memberAt (members colorAssignment) (ruleMember ?a ?rule) \<noteq> nullptr" by code_simp
  have l: "ruleAttr ?a ?rule ''List'' = ''width,height''" by code_simp
  have s: "stripQuotes (toString (memberAt (members colorAssignment) ''name'')) = ''color''"
    by code_simp
  have p: "split ''width,height'' = [''width'', ''height'']" by code_simp
  from C3_precedence_of_checks [OF h1 h2 h3 h4 refl refl refl,
      of "exampleEnvironment emptyRun" False]
  have "ruleAttr ?a ?rule ''List'' \<noteq> [] \<longrightarrow>
      fst (runGrammar_Reject (exampleEnvironment emptyRun) ''a.qml'' ''QMLPropertyAssignment''
        colorAssignment ?rule False ?a) =
      ((stripQuotes (toString (memberAt (members colorAssignment) (ruleMember ?a ?rule)))
          \<in> set (split (ruleAttr ?a ?rule ''List''))) \<noteq> False)"
    by blast
  then have "fst (runGrammar_Reject (exampleEnvironment emptyRun) ''a.qml''
      ''QMLPropertyAssignment'' colorAssignment ?rule False ?a) = False"
    by (simp add: l m s p)
  with h1 l s p show ?thesis by simp
qed

text \<open>
  Claim C3 as stated fails: in the order of the table \<open>Value\<close> comes first, so the rule
  with \<open>Value="color"\<close> and \<open>List="width,height"\<close> would reject the assignment
  \<open>color: red\<close>, whose name equals the value. The code takes \<open>List\<close> first and the rule
  does not fire.
\<close>

theorem C3_table_order_counterexample:
  "tablePredicate (exampleEnvironment emptyRun) ''a.qml'' ''QMLPropertyAssignment''
     colorAssignment
     (ruleOf ''Reject'' [(''Member'', ''name''), (''Value'', ''color''),
        (''List'', ''width,height''), (''Text'', ''T'')] [])
     (exampleAnalyzer []) = True
   \<and> runGrammar_SatisfiesConditions ''a.qml'' ''QMLPropertyAssignment'' colorAssignment
        (ruleOf ''Reject'' [(''Member'', ''name''), (''Value'', ''color''),
           (''List'', ''width,height''), (''Text'', ''T'')] [])
   \<and> runGrammar_Reject (exampleEnvironment emptyRun) ''a.qml'' ''QMLPropertyAssignment''
        colorAssignment
        (ruleOf ''Reject'' [(''Member'', ''name''), (''Value'', ''color''),
           (''List'', ''width,height''), (''Text'', ''T'')] [])
        False (exampleAnalyzer []) = (False, exampleAnalyzer [])"
  by code_simp

text \<open>
  A rule without \<open>NestedCount\<close> whose conditions hold fires on its selected predicate
  taken against the flag, and does not fire where no predicate is selected.
\<close>

lemma runGrammar_Reject_absent:
  assumes "ruleAttr this xRule ''NestedCount'' = []"
    and "\<not> (containsKey (members pEntity) (ruleMember this xRule)
           \<and> memberAt (members pEntity) (ruleMember this xRule) \<noteq> nullptr)"
  shows "runGrammar_Reject env sFileName sClassName pEntity xRule bInv this = (False, this)"
proof (cases "containsKey (members pEntity) (ruleMember this xRule)")
  case False
  then show ?thesis using assms(1) by (simp add: runGrammar_Reject_def Let_def)
next
  case True
  then have "memberAt (members pEntity) (ruleMember this xRule) = nullptr"
    using assms(2) by simp
  then show ?thesis using assms(1) by (simp add: runGrammar_Reject_def Let_def)
qed

lemma runGrammar_Reject_selected:
  assumes "runGrammar_SatisfiesConditions sFileName sClassName pEntity xRule"
    and "ruleAttr this xRule ''NestedCount'' = []"
  shows "fst (runGrammar_Reject env sFileName sClassName pEntity xRule bInv this) =
     (case selectedPredicate env sFileName pEntity xRule this of
        None \<Rightarrow> False
      | Some p \<Rightarrow> p \<noteq> bInv)"
proof (cases "containsKey (members pEntity) (ruleMember this xRule)
           \<and> memberAt (members pEntity) (ruleMember this xRule) \<noteq> nullptr")
  case False
  then have "selectedPredicate env sFileName pEntity xRule this = None"
    by (auto simp: selectedPredicate_def Let_def)
  then show ?thesis using runGrammar_Reject_absent [OF assms(2) False] by simp
next
  case True
  define pMember where "pMember = memberAt (members pEntity) (ruleMember this xRule)"
  define sMemberToString where "sMemberToString = stripQuotes (toString pMember)"
  note c = assms True [THEN conjunct1] True [THEN conjunct2] pMember_def sMemberToString_def
  have sel: "selectedPredicate env sFileName pEntity xRule this =
      (if ruleAttr this xRule ''List'' \<noteq> [] then
         Some (sMemberToString \<in> set (split (ruleAttr this xRule ''List'')))
       else if ruleAttr this xRule ''Class'' \<noteq> [] then
         Some (className pMember = ruleAttr this xRule ''Class'')
       else if ruleAttr this xRule ''Path'' \<noteq> [] then
         (if ruleAttr this xRule ''Path'' = ''Exists''
          then Some (pathExists env sFileName sMemberToString = True) else None)
       else if ruleAttr this xRule ''RegExp'' \<noteq> [] \<and> sMemberToString \<noteq> [] then
         Some (exactMatch env (ruleAttr this xRule ''RegExp'') sMemberToString)
       else if ruleAttr this xRule ''Count'' \<noteq> [] then
         (case contents pMember of
            None \<Rightarrow> None
          | Some pComplexContents \<Rightarrow>
              Some (int (length pComplexContents) > toInt (ruleAttr this xRule ''Count'')))
       else if ruleAttr this xRule ''Type'' \<noteq> [] then
         Some (valueType pMember = ruleAttr this xRule ''Type'')
       else Some (sMemberToString = ruleAttr this xRule ''Value''))"
    using True unfolding selectedPredicate_def Let_def pMember_def sMemberToString_def
    by simp
  consider
      (list) "ruleAttr this xRule ''List'' \<noteq> []"
    | (cls) "ruleAttr this xRule ''List'' = []" "ruleAttr this xRule ''Class'' \<noteq> []"
    | (path) "ruleAttr this xRule ''List'' = []" "ruleAttr this xRule ''Class'' = []"
        "ruleAttr this xRule ''Path'' \<noteq> []"
    | (regexp) "ruleAttr this xRule ''List'' = []" "ruleAttr this xRule ''Class'' = []"
        "ruleAttr this xRule ''Path'' = []"
        "ruleAttr this xRule ''RegExp'' \<noteq> []" "sMemberToString \<noteq> []"
    | (count) "ruleAttr this xRule ''List'' = []" "ruleAttr this xRule ''Class'' = []"
        "ruleAttr this xRule ''Path'' = []"
        "ruleAttr this xRule ''RegExp'' = [] \<or> sMemberToString = []"
        "ruleAttr this xRule ''Count'' \<noteq> []"
    | (type) "ruleAttr this xRule ''List'' = []" "ruleAttr this xRule ''Class'' = []"
        "ruleAttr this xRule ''Path'' = []"
        "ruleAttr this xRule ''RegExp'' = [] \<or> sMemberToString = []"
        "ruleAttr this xRule ''Count'' = []" "ruleAttr this xRule ''Type'' \<noteq> []"
    | (val) "ruleAttr this xRule ''List'' = []" "ruleAttr this xRule ''Class'' = []"
        "ruleAttr this xRule ''Path'' = []"
        "ruleAttr this xRule ''RegExp'' = [] \<or> sMemberToString = []"
        "ruleAttr this xRule ''Count'' = []" "ruleAttr this xRule ''Type'' = []"
    by blast
  then show ?thesis
  proof cases
    case list
    have f: "fst (runGrammar_Reject env sFileName sClassName pEntity xRule bInv this) = ((sMemberToString \<in> set (split (ruleAttr this xRule ''List''))) \<noteq> bInv)"
      by (rule runGrammar_Reject_list [OF c list])
    have g: "selectedPredicate env sFileName pEntity xRule this = Some (sMemberToString \<in> set (split (ruleAttr this xRule ''List'')))"
      unfolding sel using list by simp
    show ?thesis unfolding f g by simp
  next
    case cls
    have f: "fst (runGrammar_Reject env sFileName sClassName pEntity xRule bInv this) = ((className pMember = ruleAttr this xRule ''Class'') \<noteq> bInv)"
      by (rule runGrammar_Reject_class [OF c cls])
    have g: "selectedPredicate env sFileName pEntity xRule this = Some (className pMember = ruleAttr this xRule ''Class'')"
      unfolding sel using cls by simp
    show ?thesis unfolding f g by simp
  next
    case regexp
    have f: "fst (runGrammar_Reject env sFileName sClassName pEntity xRule bInv this) = (exactMatch env (ruleAttr this xRule ''RegExp'') sMemberToString \<noteq> bInv)"
      by (rule runGrammar_Reject_regexp [OF c regexp])
    have g: "selectedPredicate env sFileName pEntity xRule this = Some (exactMatch env (ruleAttr this xRule ''RegExp'') sMemberToString)"
      unfolding sel using regexp by simp
    show ?thesis unfolding f g by simp
  next
    case type
    have f: "fst (runGrammar_Reject env sFileName sClassName pEntity xRule bInv this) = ((valueType pMember = ruleAttr this xRule ''Type'') \<noteq> bInv)"
      by (rule runGrammar_Reject_type [OF c type])
    have g: "selectedPredicate env sFileName pEntity xRule this = Some (valueType pMember = ruleAttr this xRule ''Type'')"
      unfolding sel using type by auto
    show ?thesis unfolding f g by simp
  next
    case val
    have f: "fst (runGrammar_Reject env sFileName sClassName pEntity xRule bInv this) = ((sMemberToString = ruleAttr this xRule ''Value'') \<noteq> bInv)"
      by (rule runGrammar_Reject_value [OF c val])
    have g: "selectedPredicate env sFileName pEntity xRule this = Some (sMemberToString = ruleAttr this xRule ''Value'')"
      unfolding sel using val by auto
    show ?thesis unfolding f g by simp
  next
    case path
    have f: "fst (runGrammar_Reject env sFileName sClassName pEntity xRule bInv this) =
        (ruleAttr this xRule ''Path'' = ''Exists'' \<and> (pathExists env sFileName sMemberToString \<noteq> bInv))"
      by (rule runGrammar_Reject_path [OF c path])
    have g: "selectedPredicate env sFileName pEntity xRule this =
        (if ruleAttr this xRule ''Path'' = ''Exists''
         then Some (pathExists env sFileName sMemberToString = True) else None)"
      unfolding sel using path by simp
    show ?thesis unfolding f g by simp
  next
    case count
    have f: "fst (runGrammar_Reject env sFileName sClassName pEntity xRule bInv this) =
        (case contents pMember of None \<Rightarrow> False
         | Some pComplexContents \<Rightarrow>
             (int (length pComplexContents) > toInt (ruleAttr this xRule ''Count'')) \<noteq> bInv)"
      by (rule runGrammar_Reject_count [OF c count])
    have g: "selectedPredicate env sFileName pEntity xRule this =
        (case contents pMember of
            None \<Rightarrow> None
          | Some pComplexContents \<Rightarrow>
              Some (int (length pComplexContents) > toInt (ruleAttr this xRule ''Count'')))"
      unfolding sel using count by auto
    show ?thesis unfolding f g by (cases "contents pMember") simp_all
  qed
qed

text \<open>
  Claim C1, as amended. For a rule without \<open>NestedCount\<close> whose conditions hold on the
  entity: as an \<open>Accept\<close> rule it fires exactly when its selected predicate is evaluated
  and false, as a \<open>Reject\<close> rule exactly when it is evaluated and true, and the
  diagnostic it then appends is the one with the position of the entity and the text of
  the rule. Where no predicate is evaluated (the member is not there or is null, the
  selected check is a \<open>Path\<close> other than \<open>Exists\<close>, or the selected check is a \<open>Count\<close> on
  a member that is no complex entity) it fires neither as \<open>Accept\<close> nor as \<open>Reject\<close>.
\<close>

theorem C1_accept_inverts_reject:
  assumes "runGrammar_SatisfiesConditions sFileName sClassName pEntity xRule"
    and "ruleAttr this xRule ''NestedCount'' = []"
  shows "fst (runGrammar_Reject env sFileName sClassName pEntity xRule True this)
           = (selectedPredicate env sFileName pEntity xRule this = Some False)
       \<and> fst (runGrammar_Reject env sFileName sClassName pEntity xRule False this)
           = (selectedPredicate env sFileName pEntity xRule this = Some True)
       \<and> m_vErrors (snd (runGrammar_Reject env sFileName sClassName pEntity xRule True this))
           = m_vErrors this @
               (if selectedPredicate env sFileName pEntity xRule this = Some False
                then [QMLAnalyzerError sFileName (position pEntity) (ruleAttr this xRule ''Text'')]
                else [])
       \<and> m_vErrors (snd (runGrammar_Reject env sFileName sClassName pEntity xRule False this))
           = m_vErrors this @
               (if selectedPredicate env sFileName pEntity xRule this = Some True
                then [QMLAnalyzerError sFileName (position pEntity) (ruleAttr this xRule ''Text'')]
                else [])"
proof -
  have a: "fst (runGrammar_Reject env sFileName sClassName pEntity xRule True this)
           = (selectedPredicate env sFileName pEntity xRule this = Some False)"
    unfolding runGrammar_Reject_selected [OF assms]
    by (cases "selectedPredicate env sFileName pEntity xRule this") auto
  have r: "fst (runGrammar_Reject env sFileName sClassName pEntity xRule False this)
           = (selectedPredicate env sFileName pEntity xRule this = Some True)"
    unfolding runGrammar_Reject_selected [OF assms]
    by (cases "selectedPredicate env sFileName pEntity xRule this") auto
  show ?thesis
    unfolding runGrammar_Reject_errors a r by simp
qed

text \<open>
  The theorem of C1 at the rule \<open>Member="name" List="width,height" Path="foo"\<close> with
  the condition \<open>Member="content" Value="red"\<close>, on the assignment \<open>color: red\<close>: the
  condition holds, the list is the selected check, the name is not in it, the \<open>Accept\<close>
  fires with a diagnostic at the position of the assignment and the \<open>Reject\<close> does not.
\<close>

theorem C1_accept_inverts_reject_witness:
  "runGrammar_SatisfiesConditions ''a.qml'' ''QMLPropertyAssignment'' colorAssignment
     (ruleOf ''Accept'' [(''Member'', ''name''), (''List'', ''width,height''),
        (''Path'', ''foo''), (''Text'', ''T'')]
           [CXMLNode ''Condition'' [(''Member'', ''content''), (''Value'', ''red'')] []])
   \<and> ruleAttr (exampleAnalyzer [])
        (ruleOf ''Accept'' [(''Member'', ''name''), (''List'', ''width,height''),
           (''Path'', ''foo''), (''Text'', ''T'')]
           [CXMLNode ''Condition'' [(''Member'', ''content''), (''Value'', ''red'')] []]) ''NestedCount'' = []
   \<and> selectedPredicate (exampleEnvironment emptyRun) ''a.qml'' colorAssignment
        (ruleOf ''Accept'' [(''Member'', ''name''), (''List'', ''width,height''),
           (''Path'', ''foo''), (''Text'', ''T'')]
           [CXMLNode ''Condition'' [(''Member'', ''content''), (''Value'', ''red'')] []]) (exampleAnalyzer []) = Some False
   \<and> fst (runGrammar_Reject (exampleEnvironment emptyRun) ''a.qml'' ''QMLPropertyAssignment''
        colorAssignment
        (ruleOf ''Accept'' [(''Member'', ''name''), (''List'', ''width,height''),
           (''Path'', ''foo''), (''Text'', ''T'')]
           [CXMLNode ''Condition'' [(''Member'', ''content''), (''Value'', ''red'')] []])
        True (exampleAnalyzer [])) = True
   \<and> fst (runGrammar_Reject (exampleEnvironment emptyRun) ''a.qml'' ''QMLPropertyAssignment''
        colorAssignment
        (ruleOf ''Accept'' [(''Member'', ''name''), (''List'', ''width,height''),
           (''Path'', ''foo''), (''Text'', ''T'')]
           [CXMLNode ''Condition'' [(''Member'', ''content''), (''Value'', ''red'')] []])
        False (exampleAnalyzer [])) = False
   \<and> m_vErrors (snd (runGrammar_Reject (exampleEnvironment emptyRun) ''a.qml''
        ''QMLPropertyAssignment'' colorAssignment
        (ruleOf ''Accept'' [(''Member'', ''name''), (''List'', ''width,height''),
           (''Path'', ''foo''), (''Text'', ''T'')]
           [CXMLNode ''Condition'' [(''Member'', ''content''), (''Value'', ''red'')] []])
        True (exampleAnalyzer []))) = [QMLAnalyzerError ''a.qml'' (4, 2) ''T'']"
proof -
  let ?rule = "ruleOf ''Accept'' [(''Member'', ''name''), (''List'', ''width,height''),
        (''Path'', ''foo''), (''Text'', ''T'')]
           [CXMLNode ''Condition'' [(''Member'', ''content''), (''Value'', ''red'')] []]"
  let ?a = "exampleAnalyzer []"
  have h1: "runGrammar_SatisfiesConditions ''a.qml'' ''QMLPropertyAssignment'' colorAssignment ?rule"
    by code_simp
  have h2: "ruleAttr ?a ?rule ''NestedCount'' = []" by code_simp
  have p: "selectedPredicate (exampleEnvironment emptyRun) ''a.qml'' colorAssignment ?rule ?a
      = Some False"
    by code_simp
  have e: "m_vErrors ?a = []" by code_simp
  have t: "ruleAttr ?a ?rule ''Text'' = ''T''" by code_simp
  have q: "position colorAssignment = (4, 2)" by code_simp
  from C1_accept_inverts_reject [OF h1 h2, of "exampleEnvironment emptyRun"] h1 h2 p e t q
  show ?thesis by simp
qed

text \<open>
  Claim C1 as stated fails where the code evaluates no check: \<open>Count\<close> on a member that
  is no complex entity fires neither as \<open>Accept\<close> nor as \<open>Reject\<close>, although one of the
  two would have to fire whatever the value of the predicate.
\<close>

theorem C1_unevaluated_check_counterexample:
  "runGrammar_SatisfiesConditions ''a.qml'' ''QMLPropertyAssignment'' colorAssignment
     (ruleOf ''Accept'' [(''Member'', ''content''), (''Count'', ''3''), (''Text'', ''T'')] [])
   \<and> className colorAssignment = ''QMLPropertyAssignment''
   \<and> contents (memberAt (members colorAssignment) ''content'') = None
   \<and> runGrammar_Reject (exampleEnvironment emptyRun) ''a.qml'' ''QMLPropertyAssignment''
        colorAssignment
        (ruleOf ''Accept'' [(''Member'', ''content''), (''Count'', ''3''), (''Text'', ''T'')] [])
        True (exampleAnalyzer []) = (False, exampleAnalyzer [])
   \<and> runGrammar_Reject (exampleEnvironment emptyRun) ''a.qml'' ''QMLPropertyAssignment''
        colorAssignment
        (ruleOf ''Accept'' [(''Member'', ''content''), (''Count'', ''3''), (''Text'', ''T'')] [])
        False (exampleAnalyzer []) = (False, exampleAnalyzer [])"
  by code_simp

text \<open>
  With \<open>NestedCount\<close> the flag is not taken against the predicate but against the test
  \<open>iNestedCountAllowed > 0\<close>: an \<open>Accept\<close> rule with a positive count never fires.
\<close>

lemma accept_NestedCount_positive:
  assumes "toInt (ruleAttr this xRule ''NestedCount'') > 0"
    and "ruleAttr this xRule ''NestedCount'' \<noteq> []"
  shows "runGrammar_Reject env sFileName sClassName pEntity xRule True this = (False, this)"
  using assms by (simp add: runGrammar_Reject_def Let_def)

subsection \<open>Conditions\<close>

text \<open>
  A condition on a member that is there: with \<open>Value\<close> set the comparison is taken
  against \<open>Negate\<close>; with \<open>Value\<close> unset and \<open>Empty\<close> set, \<open>Negate\<close> is not read.
\<close>

lemma checkCondition_Value:
  assumes "containsKey (members pEntity) (toLower (attr xCondition ''Member''))"
    and "memberAt (members pEntity) (toLower (attr xCondition ''Member'')) \<noteq> nullptr"
    and "attr xCondition ''Value'' \<noteq> []"
  shows "checkCondition sFileName pEntity xCondition =
     (if (stripQuotes (toString (memberAt (members pEntity) (toLower (attr xCondition ''Member''))))
            = attr xCondition ''Value'')
         \<noteq> (toLower (attr xCondition ''Negate'') = ''true'')
      then NextCondition else ReturnFalse)"
  using assms by (simp add: checkCondition_def Let_def)

lemma checkCondition_Empty:
  assumes "containsKey (members pEntity) (toLower (attr xCondition ''Member''))"
    and "memberAt (members pEntity) (toLower (attr xCondition ''Member'')) \<noteq> nullptr"
    and "attr xCondition ''Value'' = []"
    and "toLower (attr xCondition ''Empty'') \<noteq> []"
  shows "checkCondition sFileName pEntity xCondition =
     (if stripQuotes (toString (memberAt (members pEntity) (toLower (attr xCondition ''Member'')))) = []
         \<and> toLower (attr xCondition ''Empty'') = ''true''
      then NextCondition else ReturnFalse)"
  using assms by (simp add: checkCondition_def Let_def)

text \<open>
  Claim C6: the code at the failing input. The member \<open>content\<close> of the assignment
  \<open>text: ""\<close> has the empty string. The condition \<open>Member="content" Empty="true"\<close>
  holds, and it holds as well with \<open>Negate="true"\<close> added, where the claim has the
  result inverted.
\<close>

theorem C6_Negate_ignored_with_Empty:
  "stripQuotes (toString (memberAt (members
       (propertyAssignment (4, 2) ''text'' (simpleEntity ''QMLEntity'' (10, 2) [CHR 0x22, CHR 0x22])))
       ''content'')) = []
   \<and> runGrammar_SatisfiesConditions ''a.qml'' ''QMLPropertyAssignment''
       (propertyAssignment (4, 2) ''text'' (simpleEntity ''QMLEntity'' (10, 2) [CHR 0x22, CHR 0x22]))
       (ruleOf ''Reject'' [(''Member'', ''name''), (''Text'', ''T'')]
          [CXMLNode ''Condition'' [(''Member'', ''content''), (''Empty'', ''true'')] []]) = True
   \<and> runGrammar_SatisfiesConditions ''a.qml'' ''QMLPropertyAssignment''
       (propertyAssignment (4, 2) ''text'' (simpleEntity ''QMLEntity'' (10, 2) [CHR 0x22, CHR 0x22]))
       (ruleOf ''Reject'' [(''Member'', ''name''), (''Text'', ''T'')]
          [CXMLNode ''Condition''
             [(''Member'', ''content''), (''Empty'', ''true''), (''Negate'', ''true'')] []]) = True"
  by code_simp

subsection \<open>The members of a binary operation\<close>

text \<open>
  \<^verbatim>\<open>QString::toLower\<close> yields no upper-case letter, so no lower-cased name is
  \<open>Left\<close> or \<open>Right\<close>.
\<close>

lemma toLower_char_not_upper:
  "65 \<le> (of_char c :: nat) \<Longrightarrow> of_char c \<le> (90 :: nat) \<Longrightarrow> toLower_char d \<noteq> c"
proof
  assume c: "65 \<le> (of_char c :: nat)" "of_char c \<le> (90 :: nat)" and e: "toLower_char d = c"
  let ?n = "of_char d :: nat"
  have lt: "?n < 256" by simp
  show False
  proof (cases "(65 \<le> ?n \<and> ?n \<le> 90) \<or> (192 \<le> ?n \<and> ?n \<le> 222 \<and> ?n \<noteq> 215)")
    case True
    then have "toLower_char d = char_of (?n + 32)"
      by (auto simp: toLower_char_def Let_def)
    with e have "of_char c = (of_char (char_of (?n + 32) :: char) :: nat)" by simp
    also have "\<dots> = (?n + 32) mod 256" by (simp add: of_char_of)
    finally have "of_char c = (?n + 32) mod 256" .
    with True c lt show False by auto
  next
    case False
    then have "toLower_char d = d" by (auto simp: toLower_char_def Let_def)
    with e False c show False by auto
  qed
qed

lemma toLower_not_Left: "toLower s \<noteq> ''Left''"
  using toLower_char_not_upper [of "CHR ''L''"] by (cases s) (auto simp: toLower_def)

lemma toLower_not_Right: "toLower s \<noteq> ''Right''"
  using toLower_char_not_upper [of "CHR ''R''"] by (cases s) (auto simp: toLower_def)

lemma QMLBinaryOperation_members_eq:
  "QMLBinaryOperation_members pLeft pRight = [(''Left'', pLeft), (''Right'', pRight)]"
  by (simp add: QMLBinaryOperation_members_def)

text \<open>
  Claim C7: the code at a binary operation. The keys of its \<open>members()\<close> are \<open>Left\<close>
  and \<open>Right\<close>, which are not lower case, and no lower-cased \<open>Member\<close> attribute is one
  of them.
\<close>

theorem C7_binary_operation_keys_not_lowercase:
  "keys (members (QMLBinaryOperation pPosition sToString sValueType pLeft pRight))
     = [''Left'', ''Right'']
   \<and> toLower ''Left'' = ''left'' \<and> toLower ''Right'' = ''right''
   \<and> (\<forall>sMember. \<not> containsKey
          (members (QMLBinaryOperation pPosition sToString sValueType pLeft pRight))
          (toLower sMember))"
proof -
  have "toLower ''Left'' = ''left''" "toLower ''Right'' = ''right''" by code_simp+
  then show ?thesis
    using toLower_not_Left toLower_not_Right
    by (auto simp: QMLBinaryOperation_def QMLBinaryOperation_members_eq keys_def containsKey_def)
qed

text \<open>
  So a rule without \<open>NestedCount\<close>, in a document without macros, never fires on a
  binary operation.
\<close>

lemma binary_operation_rule_never_fires:
  assumes "m_mMacros this = []"
    and "ruleAttr this xRule ''NestedCount'' = []"
  shows "runGrammar_Reject env sFileName sClassName
           (QMLBinaryOperation pPosition sToString sValueType pLeft pRight) xRule bInv this
         = (False, this)"
proof -
  have "ruleMember this xRule = toLower (attr xRule ''Member'')"
    using assms(1) by (simp add: ruleMember_def processMacros_def keys_def)
  then have "\<not> containsKey
      (members (QMLBinaryOperation pPosition sToString sValueType pLeft pRight))
      (ruleMember this xRule)"
    using toLower_not_Left toLower_not_Right
    by (auto simp: QMLBinaryOperation_def QMLBinaryOperation_members_eq containsKey_def)
  then show ?thesis using assms(2) by (simp add: runGrammar_Reject_def Let_def)
qed

subsection \<open>The traversal\<close>

text \<open>
  Whether a rule fires depends on the macros of the analyzer and not on the errors it
  has listed so far, so the diagnostics of the closed forms can be taken at the analyzer
  as it was when the traversal began.
\<close>

lemma fst_if_cong:
  "fst a = fst a' \<Longrightarrow> fst b = fst b' \<Longrightarrow> fst (if c then a else b) = fst (if c then a' else b')"
  by simp

lemma fst_case_option_cong:
  "fst a = fst a' \<Longrightarrow> (\<And>x. fst (f x) = fst (f' x)) \<Longrightarrow>
     fst (case v of None \<Rightarrow> a | Some x \<Rightarrow> f x) = fst (case v of None \<Rightarrow> a' | Some x \<Rightarrow> f' x)"
  by (simp split: option.split)

lemma ruleAttr_errors [simp]: "ruleAttr (this\<lparr>m_vErrors := v\<rparr>) xRule k = ruleAttr this xRule k"
  by (simp add: ruleAttr_def)

lemma ruleMember_errors [simp]: "ruleMember (this\<lparr>m_vErrors := v\<rparr>) xRule = ruleMember this xRule"
  by (simp add: ruleMember_def)

lemma runGrammar_Reject_fst_errors:
  "fst (runGrammar_Reject env sFileName sClassName pEntity xRule bInv (this\<lparr>m_vErrors := v\<rparr>)) =
   fst (runGrammar_Reject env sFileName sClassName pEntity xRule bInv this)"
  unfolding runGrammar_Reject_def Let_def ruleAttr_errors ruleMember_errors
  by (intro fst_if_cong fst_case_option_cong) simp_all

lemma ruleDiagnostics_errors [simp]:
  "ruleDiagnostics env sFileName sClassName pEntity (this\<lparr>m_vErrors := v\<rparr>) =
   ruleDiagnostics env sFileName sClassName pEntity this"
  by (intro ext) (simp add: ruleDiagnostics_def runGrammar_Reject_fst_errors)

text \<open>
  The loops over the rules of a block, over the blocks and over the unreferenced
  symbols append the diagnostics of the closed forms, and \<open>bHasRejects\<close> is set exactly
  when a diagnostic was appended.
\<close>

lemma runGrammar_Reject_result:
  "runGrammar_Reject env sFileName sClassName pEntity xRule bInv this =
     (ruleDiagnostics env sFileName sClassName pEntity this bInv xRule \<noteq> [],
      this\<lparr>m_vErrors := m_vErrors this
         @ ruleDiagnostics env sFileName sClassName pEntity this bInv xRule\<rparr>)"
  using runGrammar_Reject_frame [of env sFileName sClassName pEntity xRule bInv this]
  by (cases "runGrammar_Reject env sFileName sClassName pEntity xRule bInv this")
     (auto simp: ruleDiagnostics_def outputError_def)

lemma runRules_result:
  "runRules env sFileName sClassName pEntity bInv vRules (bHasRejects, this) =
     (bHasRejects \<or>
        concat (map (ruleDiagnostics env sFileName sClassName pEntity this bInv) vRules) \<noteq> [],
      this\<lparr>m_vErrors := m_vErrors this
         @ concat (map (ruleDiagnostics env sFileName sClassName pEntity this bInv) vRules)\<rparr>)"
proof (induction vRules arbitrary: bHasRejects this)
  case Nil
  then show ?case by (simp add: runRules_def)
next
  case (Cons xRule vRules)
  have step: "runRules env sFileName sClassName pEntity bInv (xRule # vRules) (bHasRejects, this) =
      runRules env sFileName sClassName pEntity bInv vRules
        (bHasRejects \<or> ruleDiagnostics env sFileName sClassName pEntity this bInv xRule \<noteq> [],
         this\<lparr>m_vErrors := m_vErrors this
            @ ruleDiagnostics env sFileName sClassName pEntity this bInv xRule\<rparr>)"
    by (auto simp: runRules_def runGrammar_Reject_result)
  show ?case unfolding step Cons.IH by auto
qed

lemma checkDiagnostics_errors [simp]:
  "checkDiagnostics env sFileName pEntity (this\<lparr>m_vErrors := v\<rparr>) =
   checkDiagnostics env sFileName pEntity this"
  by (intro ext) (simp add: checkDiagnostics_def)

lemma runCheck_result:
  "runCheck env sFileName pEntity xCheck (bHasRejects, this) =
     (bHasRejects \<or> checkDiagnostics env sFileName pEntity this xCheck \<noteq> [],
      this\<lparr>m_vErrors := m_vErrors this @ checkDiagnostics env sFileName pEntity this xCheck\<rparr>)"
  by (auto simp: runCheck_def Let_def runRules_result checkDiagnostics_def)

lemma fold_runCheck_result:
  "fold (runCheck env sFileName pEntity) vChecks (bHasRejects, this) =
     (bHasRejects \<or> concat (map (checkDiagnostics env sFileName pEntity this) vChecks) \<noteq> [],
      this\<lparr>m_vErrors := m_vErrors this
         @ concat (map (checkDiagnostics env sFileName pEntity this) vChecks)\<rparr>)"
proof (induction vChecks arbitrary: bHasRejects this)
  case Nil
  then show ?case by simp
next
  case (Cons xCheck vChecks)
  show ?case by (simp add: runCheck_result Cons.IH)
qed

lemma runChecks_result:
  "runChecks env sFileName pEntity this =
     (entityDiagnostics env sFileName pEntity this \<noteq> [],
      this\<lparr>m_vErrors := m_vErrors this @ entityDiagnostics env sFileName pEntity this\<rparr>)"
  by (simp add: runChecks_def fold_runCheck_result entityDiagnostics_def)

lemma entityDiagnostics_errors [simp]:
  "entityDiagnostics env sFileName pEntity (this\<lparr>m_vErrors := v\<rparr>) =
   entityDiagnostics env sFileName pEntity this"
  by (simp add: entityDiagnostics_def)

lemma subtreeDiagnostics_errors_entity:
  "subtreeDiagnostics env sFileName (this\<lparr>m_vErrors := v\<rparr>) pEntity =
   subtreeDiagnostics env sFileName this pEntity"
proof (induction env sFileName this pEntity rule: subtreeDiagnostics.induct)
  case (1 env sFileName this)
  show ?case by simp
next
  case (2 env sFileName this cn pos str vt mMembers cont up uv ua)
  let ?e = "QMLEntity cn pos str vt mMembers cont up uv ua"
  show ?case
  proof (cases "entityDiagnostics env sFileName ?e this = []")
    case False
    then show ?thesis by simp
  next
    case True
    have m: "map (\<lambda>(sKey, pMember).
                 subtreeDiagnostics env sFileName (this\<lparr>m_vErrors := v\<rparr>) pMember) mMembers
           = map (\<lambda>(sKey, pMember). subtreeDiagnostics env sFileName this pMember) mMembers"
      using "2.IH"(1) [OF True] by (intro map_cong) auto
    have c: "map (subtreeDiagnostics env sFileName (this\<lparr>m_vErrors := v\<rparr>)) children
           = map (subtreeDiagnostics env sFileName this) children"
      if "cont = Some children" for children
      using "2.IH"(2) [OF True that] by (intro map_cong) auto
    show ?thesis
    proof (cases cont)
      case None
      then show ?thesis using True by (simp add: m)
    next
      case (Some children)
      then show ?thesis using True by (simp add: m c [OF Some])
    qed
  qed
qed

lemma subtreeDiagnostics_errors [simp]:
  "subtreeDiagnostics env sFileName (this\<lparr>m_vErrors := v\<rparr>) =
   subtreeDiagnostics env sFileName this"
  by (intro ext) (rule subtreeDiagnostics_errors_entity)

lemma outputUnreferenced_result:
  "outputUnreferenced sFileName sText unused this =
     this\<lparr>m_vErrors := m_vErrors this @ unreferencedDiagnostics sFileName sText unused\<rparr>"
proof (cases unused)
  case None
  then show ?thesis by (simp add: outputUnreferenced_def unreferencedDiagnostics_def)
next
  case (Some m)
  have "fold (\<lambda>(sKey, pPosition). outputError sFileName pPosition sText) m this =
      this\<lparr>m_vErrors := m_vErrors this
        @ map (\<lambda>(sKey, pPosition). QMLAnalyzerError sFileName pPosition sText) m\<rparr>"
    by (induction m arbitrary: this) (auto simp: outputError_def)
  with Some show ?thesis by (simp add: outputUnreferenced_def unreferencedDiagnostics_def)
qed

lemma fold_appends_errors:
  assumes step: "\<And>x t. x \<in> set xs \<Longrightarrow> f x t = t\<lparr>m_vErrors := m_vErrors t @ g t x\<rparr>"
    and inv: "\<And>t v. g (t\<lparr>m_vErrors := v\<rparr>) = g t"
  shows "fold f xs (t :: QMLAnalyzer) = t\<lparr>m_vErrors := m_vErrors t @ concat (map (g t) xs)\<rparr>"
  using step
proof (induction xs arbitrary: t)
  case Nil
  show ?case by simp
next
  case (Cons x xs)
  have "fold f (x # xs) t = fold f xs (t\<lparr>m_vErrors := m_vErrors t @ g t x\<rparr>)"
    using Cons.prems [of x t] by simp
  also have "\<dots> = (t\<lparr>m_vErrors := m_vErrors t @ g t x\<rparr>)
      \<lparr>m_vErrors := m_vErrors (t\<lparr>m_vErrors := m_vErrors t @ g t x\<rparr>)
         @ concat (map (g (t\<lparr>m_vErrors := m_vErrors t @ g t x\<rparr>)) xs)\<rparr>"
    using Cons.prems by (intro Cons.IH) simp
  finally show ?case by (simp add: inv)
qed

text \<open>
  The traversal of an entity appends the diagnostics of its subtree and changes nothing
  else of the analyzer.
\<close>

lemma runGrammar_Recurse_result:
  "runGrammar_Recurse env sFileName pEntity this =
     this\<lparr>m_vErrors := m_vErrors this @ subtreeDiagnostics env sFileName this pEntity\<rparr>"
proof (induction env sFileName pEntity this rule: runGrammar_Recurse.induct)
  case (1 env sFileName this)
  show ?case by simp
next
  case (2 env sFileName cn pos str vt mMembers cont up uv ua this)
  let ?e = "QMLEntity cn pos str vt mMembers cont up uv ua"
  let ?u = "unreferencedDiagnostics sFileName ''Unreferenced property'' up
     @ unreferencedDiagnostics sFileName ''Unreferenced variable'' uv
     @ unreferencedDiagnostics sFileName ''Unreferenced parameter'' ua"
  let ?d = "entityDiagnostics env sFileName ?e this"
  define this3 where "this3 = outputUnreferenced sFileName ''Unreferenced parameter'' ua
      (outputUnreferenced sFileName ''Unreferenced variable'' uv
        (outputUnreferenced sFileName ''Unreferenced property'' up this))"
  have t3: "this3 = this\<lparr>m_vErrors := m_vErrors this @ ?u\<rparr>"
    by (simp add: this3_def outputUnreferenced_result)
  define this4 where "this4 = this\<lparr>m_vErrors := m_vErrors this @ ?u @ ?d\<rparr>"
  have rc: "runChecks env sFileName ?e this3 = (?d \<noteq> [], this4)"
    by (simp add: runChecks_result t3 this4_def)
  show ?case
  proof (cases "?d = []")
    case False
    then show ?thesis
      using rc by (simp add: this3_def [symmetric] this4_def)
  next
    case True
    have ihm: "\<And>x t. x \<in> set mMembers \<Longrightarrow>
        (case x of (sKey, pMember) \<Rightarrow> runGrammar_Recurse env sFileName pMember) t =
        t\<lparr>m_vErrors := m_vErrors t @
           (\<lambda>t (sKey, pMember). subtreeDiagnostics env sFileName t pMember) t x\<rparr>"
      using "2.IH"(1) [OF refl refl refl refl rc [unfolded this3_def, symmetric]] True
      by (auto simp: this3_def)
    have inv: "\<And>t v. (\<lambda>t (sKey, pMember). subtreeDiagnostics env sFileName t pMember)
          (t\<lparr>m_vErrors := v\<rparr>)
        = (\<lambda>t (sKey, pMember). subtreeDiagnostics env sFileName t pMember) t"
      by simp
    define this5 where "this5 = fold (\<lambda>(sKey, pMember) this.
        runGrammar_Recurse env sFileName pMember this) mMembers this4"
    have t5: "this5 = this4\<lparr>m_vErrors := m_vErrors this4 @ concat (map
        (\<lambda>(sKey, pMember). subtreeDiagnostics env sFileName this pMember) mMembers)\<rparr>"
      unfolding this5_def
      using fold_appends_errors [of mMembers
          "\<lambda>(sKey, pMember). runGrammar_Recurse env sFileName pMember"
          "\<lambda>t (sKey, pMember). subtreeDiagnostics env sFileName t pMember" this4,
          OF ihm inv]
      by (simp add: this4_def)
    have unfold: "runGrammar_Recurse env sFileName ?e this =
        (case cont of None \<Rightarrow> this5
         | Some children \<Rightarrow> fold (\<lambda>pChildItem this.
             runGrammar_Recurse env sFileName pChildItem this) children this5)"
      using rc True by (cases cont) (simp_all add: this3_def [symmetric] this5_def Let_def)
    show ?thesis
    proof (cases cont)
      case None
      then show ?thesis using unfold True by (simp add: t5 this4_def)
    next
      case (Some children)
      have ihc: "\<And>x t. x \<in> set children \<Longrightarrow>
          runGrammar_Recurse env sFileName x t =
          t\<lparr>m_vErrors := m_vErrors t @ subtreeDiagnostics env sFileName t x\<rparr>"
        using "2.IH"(2) [OF refl refl refl refl rc [unfolded this3_def, symmetric] _ refl Some] True
        by (auto simp: this3_def)
      have "fold (runGrammar_Recurse env sFileName) children this5 =
          this5\<lparr>m_vErrors := m_vErrors this5
            @ concat (map (subtreeDiagnostics env sFileName this5) children)\<rparr>"
        using fold_appends_errors [of children "runGrammar_Recurse env sFileName"
            "subtreeDiagnostics env sFileName" this5, OF ihc] by simp
      then show ?thesis using unfold True Some by (simp add: t5 this4_def)
    qed
  qed
qed

text \<open>
  Claim C2, as amended. On an entity the \<open>Check\<close> blocks of its class are taken one
  after the other in the order of the document; within each block all \<open>Reject\<close> rules
  are evaluated before all \<open>Accept\<close> rules; every rule is evaluated, whether or not an
  earlier one fired, and appends its diagnostic when it fires (\<open>entityDiagnostics\<close>). A
  rule has fired on the entity exactly when this list is not empty, and the traversal
  goes on into the members and then the ordered children of the entity exactly when it
  is empty (\<open>subtreeDiagnostics\<close>).
\<close>

theorem C2_traversal:
  "fst (runChecks env sFileName pEntity this) = (entityDiagnostics env sFileName pEntity this \<noteq> [])
   \<and> snd (runChecks env sFileName pEntity this) =
       this\<lparr>m_vErrors := m_vErrors this @ entityDiagnostics env sFileName pEntity this\<rparr>
   \<and> runGrammar_Recurse env sFileName pEntity this =
       this\<lparr>m_vErrors := m_vErrors this @ subtreeDiagnostics env sFileName this pEntity\<rparr>"
  by (simp add: runChecks_result runGrammar_Recurse_result)

text \<open>
  The theorem of C2 at the item \<open>Rectangle { color: red }\<close>. The block for
  \<open>QMLItem\<close> lists its \<open>Accept\<close> rule before its \<open>Reject\<close> rule; both fire, the
  \<open>Reject\<close> first. The rule for \<open>QMLPropertyAssignment\<close> would fire on the assignment
  inside the item, which the traversal does not reach.
\<close>

theorem C2_traversal_witness:
  "fst (runGrammar_Reject (exampleEnvironment emptyRun) ''a.qml'' ''QMLPropertyAssignment''
      colorAssignment
      (ruleOf ''Reject'' [(''Member'', ''name''), (''Value'', ''color''), (''Text'', ''R2'')] [])
      False (exampleAnalyzer []))
   \<and> m_vErrors (runGrammar_Recurse (exampleEnvironment emptyRun) ''a.qml'' rectangleItem
     (exampleAnalyzer
        [checkOf ''QMLItem''
           [ruleOf ''Accept'' [(''Member'', ''name''), (''Value'', ''Item''), (''Text'', ''A1'')] [],
            ruleOf ''Reject'' [(''Member'', ''name''), (''Value'', ''Rectangle''), (''Text'', ''R1'')] []],
         checkOf ''QMLPropertyAssignment''
           [ruleOf ''Reject'' [(''Member'', ''name''), (''Value'', ''color''), (''Text'', ''R2'')] []]]))
   = [QMLAnalyzerError ''a.qml'' (0, 0) ''R1'', QMLAnalyzerError ''a.qml'' (0, 0) ''A1'']"
proof -
  let ?a = "exampleAnalyzer
        [checkOf ''QMLItem''
           [ruleOf ''Accept'' [(''Member'', ''name''), (''Value'', ''Item''), (''Text'', ''A1'')] [],
            ruleOf ''Reject'' [(''Member'', ''name''), (''Value'', ''Rectangle''), (''Text'', ''R1'')] []],
         checkOf ''QMLPropertyAssignment''
           [ruleOf ''Reject'' [(''Member'', ''name''), (''Value'', ''color''), (''Text'', ''R2'')] []]]"
  have r: "fst (runGrammar_Reject (exampleEnvironment emptyRun) ''a.qml'' ''QMLPropertyAssignment''
      colorAssignment
      (ruleOf ''Reject'' [(''Member'', ''name''), (''Value'', ''color''), (''Text'', ''R2'')] [])
      False (exampleAnalyzer []))"
    by code_simp
  have d: "subtreeDiagnostics (exampleEnvironment emptyRun) ''a.qml'' ?a rectangleItem
      = [QMLAnalyzerError ''a.qml'' (0, 0) ''R1'', QMLAnalyzerError ''a.qml'' (0, 0) ''A1'']"
    by code_simp
  have e: "m_vErrors ?a = []" by code_simp
  from C2_traversal [of "exampleEnvironment emptyRun" "''a.qml''" rectangleItem ?a]
  have "runGrammar_Recurse (exampleEnvironment emptyRun) ''a.qml'' rectangleItem ?a =
      ?a\<lparr>m_vErrors := m_vErrors ?a
        @ subtreeDiagnostics (exampleEnvironment emptyRun) ''a.qml'' ?a rectangleItem\<rparr>"
    by blast
  then show ?thesis using r by (simp add: d e)
qed

text \<open>
  Claim C2 as stated fails with two \<open>Check\<close> blocks of one class: the \<open>Accept\<close> rule
  of the first block is evaluated, and its diagnostic listed, before the \<open>Reject\<close> rule
  of the second block.
\<close>

theorem C2_two_blocks_counterexample:
  "m_vErrors (runGrammar_Recurse (exampleEnvironment emptyRun) ''a.qml'' colorAssignment
     (exampleAnalyzer
        [checkOf ''QMLPropertyAssignment''
           [ruleOf ''Accept'' [(''Member'', ''name''), (''Value'', ''width''), (''Text'', ''A1'')] []],
         checkOf ''QMLPropertyAssignment''
           [ruleOf ''Reject'' [(''Member'', ''name''), (''Value'', ''color''), (''Text'', ''R2'')] []]]))
   = [QMLAnalyzerError ''a.qml'' (4, 2) ''A1'', QMLAnalyzerError ''a.qml'' (4, 2) ''R2'']"
  by code_simp

subsection \<open>A file with a syntax error\<close>

text \<open>
  \<^verbatim>\<open>parse_Internal\<close> on the scope that \<^verbatim>\<open>parse\<close> has pushed for a file: the entities
  built go to the file, and a syntax error is recorded in the scope and in the context.
\<close>

lemma setContents_fields [simp]:
  "m_sScopes (setContents n v ctx) = m_sScopes ctx"
  "m_eError (setContents n v ctx) = m_eError ctx"
  "m_tErrorObject (setContents n v ctx) = m_tErrorObject ctx"
  by (simp_all add: setContents_def)

lemma SCOPE_push [simp]: "SCOPE (ctx\<lparr>m_sScopes := vScopes @ [scope]\<rparr>) = scope"
  by (simp add: SCOPE_def)

lemma setSCOPE_push [simp]:
  "setSCOPE scope' (ctx\<lparr>m_sScopes := vScopes @ [scope]\<rparr>) = ctx\<lparr>m_sScopes := vScopes @ [scope']\<rparr>"
  by (simp add: setSCOPE_def)

lemma parse_Internal_push:
  "parse_Internal env (ctx\<lparr>m_sScopes := vScopes @ [QMLScope sFileName sText]\<rparr>) =
     (let run = yyparse env (QMLScope sFileName sText);
          ctx = setContents sFileName (builtContents run) ctx
      in case syntaxError run of
           None \<Rightarrow> (peSuccess, ctx\<lparr>m_sScopes := vScopes @ [QMLScope sFileName sText]\<rparr>)
         | Some (sError, iLine, iColumn) \<Rightarrow>
             (peSyntaxError,
              ctx\<lparr>m_sScopes := vScopes @ [(QMLScope sFileName sText)
                     \<lparr>m_iLine := iLine, m_iColumn := iColumn, m_eScopeError := peSyntaxError\<rparr>],
                  m_eError := peSyntaxError,
                  m_tErrorObject := QMLAnalyzerError sFileName (iColumn, iLine) sError\<rparr>))"
proof -
  let ?scope = "QMLScope sFileName sText"
  let ?c1 = "ctx\<lparr>m_sScopes := vScopes @ [?scope]\<rparr>"
  have s0: "?scope\<lparr>m_eScopeError := peSuccess\<rparr> = ?scope" by (simp add: QMLScope_def)
  have f: "m_pFile ?scope = sFileName" "m_eScopeError ?scope = peSuccess"
    by (simp_all add: QMLScope_def)
  have c1: "setSCOPE ((SCOPE ?c1)\<lparr>m_eScopeError := peSuccess\<rparr>) ?c1 = ?c1"
    by (simp add: s0)
  have sc: "setContents n v ?c1 = (setContents n v ctx)\<lparr>m_sScopes := vScopes @ [?scope]\<rparr>" for n v
    by (simp add: setContents_def)
  show ?thesis
  proof (cases "syntaxError (yyparse env ?scope)")
    case None
    then show ?thesis
      unfolding parse_Internal_def Let_def c1 call_yyparse_def
      by (simp add: f sc)
  next
    case (Some e)
    obtain sError iLine iColumn where e: "e = (sError, iLine, iColumn)" by (cases e)
    show ?thesis
      unfolding parse_Internal_def Let_def c1 call_yyparse_def
      by (simp add: Some e f sc showError_def SCOPE_def)
  qed
qed

text \<open>
  The body of the loop of \<^verbatim>\<open>parse\<close> passes over a file already parsed. On a file not
  parsed yet, whatever the parser reports, the three passes of the resolver run on the file and it is marked as parsed.
  The names of the files and the \<open>parsed\<close> flags of the other files stay as they are.
\<close>

lemma parse_file_parsed:
  "parsed (m_vFiles ctx ! i) \<Longrightarrow> parse_file env i ctx = ctx"
  by (simp add: parse_file_def)

lemma parse_file_unparsed:
  assumes "\<not> parsed (m_vFiles ctx ! i)"
    and "sFileName = fileName (m_vFiles ctx ! i)"
    and "run = yyparse env (QMLScope sFileName (readFile env sFileName))"
    and "vFiles = m_vFiles (setContents sFileName (builtContents run) ctx)"
  shows "parse_file env i ctx =
     (case syntaxError run of
        None \<Rightarrow> ctx\<lparr>m_vFiles := vFiles[i := resolved (vFiles ! i)], m_sScopes := [],
                     m_eError := peSuccess\<rparr>
      | Some (sError, iLine, iColumn) \<Rightarrow>
          ctx\<lparr>m_vFiles := vFiles[i := resolved (vFiles ! i)], m_sScopes := [],
              m_eError := peSyntaxError,
              m_tErrorObject := QMLAnalyzerError sFileName (iColumn, iLine) sError\<rparr>)"
proof (cases "syntaxError run")
  case None
  then show ?thesis
    using assms
    unfolding parse_file_def Let_def
    by (simp add: parse_Internal_push Let_def resolved_def setContents_def)
next
  case (Some e)
  obtain sError iLine iColumn where e: "e = (sError, iLine, iColumn)" by (cases e)
  show ?thesis
    using assms Some e
    unfolding parse_file_def Let_def
    by (simp add: parse_Internal_push Let_def resolved_def setContents_def)
qed

lemma setContents_files:
  "map fileName (m_vFiles (setContents n v ctx)) = map fileName (m_vFiles ctx)"
  "map parsed (m_vFiles (setContents n v ctx)) = map parsed (m_vFiles ctx)"
  "length (m_vFiles (setContents n v ctx)) = length (m_vFiles ctx)"
  by (simp_all add: setContents_def comp_def)

lemma resolved_fields [simp]:
  "fileName (resolved pFile) = fileName pFile" "parsed (resolved pFile)"
  "fileContents (resolved pFile) = fileContents pFile"
  "symbolsSolved (resolved pFile)" "referencesSolved (resolved pFile)"
  "symbolUsagesSolved (resolved pFile)"
  by (simp_all add: resolved_def solveSymbols_def solveReferences_def solveSymbolUsages_def)

lemma parse_file_files:
  assumes "\<not> parsed (m_vFiles ctx ! i)"
  shows "\<exists>vFiles. length vFiles = length (m_vFiles ctx)
       \<and> map fileName vFiles = map fileName (m_vFiles ctx)
       \<and> map parsed vFiles = map parsed (m_vFiles ctx)
       \<and> m_vFiles (parse_file env i ctx) = vFiles[i := resolved (vFiles ! i)]"
proof -
  let ?n = "fileName (m_vFiles ctx ! i)"
  let ?run = "yyparse env (QMLScope ?n (readFile env ?n))"
  let ?v = "m_vFiles (setContents ?n (builtContents ?run) ctx)"
  have "m_vFiles (parse_file env i ctx) = ?v[i := resolved (?v ! i)]"
    unfolding parse_file_unparsed [OF assms refl refl refl]
    by (simp split: option.split prod.split)
  then show ?thesis using setContents_files [of ?n "builtContents ?run" ctx] by blast
qed

lemma parse_file_keeps:
  assumes "i < length (m_vFiles ctx)"
  shows "length (m_vFiles (parse_file env i ctx)) = length (m_vFiles ctx)"
    and "map fileName (m_vFiles (parse_file env i ctx)) = map fileName (m_vFiles ctx)"
    and "k \<noteq> i \<Longrightarrow> k < length (m_vFiles ctx) \<Longrightarrow>
           parsed (m_vFiles (parse_file env i ctx) ! k) = parsed (m_vFiles ctx ! k)"
proof -
  show "length (m_vFiles (parse_file env i ctx)) = length (m_vFiles ctx)"
  proof (cases "parsed (m_vFiles ctx ! i)")
    case True
    then show ?thesis by (simp add: parse_file_def)
  next
    case False
    from parse_file_files [OF False, of env] show ?thesis by auto
  qed
  show "map fileName (m_vFiles (parse_file env i ctx)) = map fileName (m_vFiles ctx)"
  proof (cases "parsed (m_vFiles ctx ! i)")
    case True
    then show ?thesis by (simp add: parse_file_def)
  next
    case False
    from parse_file_files [OF False, of env] obtain vFiles where
      v: "length vFiles = length (m_vFiles ctx)"
        "map fileName vFiles = map fileName (m_vFiles ctx)"
        "m_vFiles (parse_file env i ctx) = vFiles[i := resolved (vFiles ! i)]"
      by blast
    have "map fileName (vFiles[i := resolved (vFiles ! i)]) = map fileName vFiles"
      using assms v(1) by (simp add: map_update list_update_same_conv)
    then show ?thesis using v by simp
  qed
  show "parsed (m_vFiles (parse_file env i ctx) ! k) = parsed (m_vFiles ctx ! k)"
    if "k \<noteq> i" "k < length (m_vFiles ctx)"
  proof (cases "parsed (m_vFiles ctx ! i)")
    case True
    then show ?thesis by (simp add: parse_file_def)
  next
    case False
    from parse_file_files [OF False, of env] obtain vFiles where
      v: "length vFiles = length (m_vFiles ctx)"
        "map parsed vFiles = map parsed (m_vFiles ctx)"
        "m_vFiles (parse_file env i ctx) = vFiles[i := resolved (vFiles ! i)]"
      by blast
    have "parsed (vFiles ! k) = parsed (m_vFiles ctx ! k)"
      using v(1,2) that(2) by (metis nth_map)
    then show ?thesis using v(3) that by simp
  qed
qed

text \<open>
  \<^verbatim>\<open>parse\<close> returns the status of the last file it parses. When that file is the one
  with the syntax error, the status is \<open>peSyntaxError\<close> and the error object is the error
  of that file.
\<close>

lemma fold_parse_file_keeps:
  assumes "\<forall>j \<in> set js. j < length (m_vFiles ctx)"
  shows "length (m_vFiles (fold (parse_file env) js ctx)) = length (m_vFiles ctx)
       \<and> map fileName (m_vFiles (fold (parse_file env) js ctx)) = map fileName (m_vFiles ctx)
       \<and> (\<forall>k. k \<notin> set js \<and> k < length (m_vFiles ctx) \<longrightarrow>
             parsed (m_vFiles (fold (parse_file env) js ctx) ! k) = parsed (m_vFiles ctx ! k))"
  using assms
proof (induction js arbitrary: ctx)
  case Nil
  show ?case by simp
next
  case (Cons j js)
  have j: "j < length (m_vFiles ctx)" using Cons.prems by simp
  note k = parse_file_keeps [OF j, where env = env]
  have "\<forall>j' \<in> set js. j' < length (m_vFiles (parse_file env j ctx))"
    using Cons.prems k(1) by simp
  from Cons.IH [OF this] show ?case using k by simp
qed

lemma fold_parse_file_parsed_list:
  "\<forall>j \<in> set js. parsed (m_vFiles ctx ! j) \<Longrightarrow> fold (parse_file env) js ctx = ctx"
  by (induction js) (simp_all add: parse_file_parsed)

lemma parse_file_syntax_error:
  assumes "i < length (m_vFiles ctx)"
    and "\<not> parsed (m_vFiles ctx ! i)"
    and "fileName (m_vFiles ctx ! i) = sFileName"
    and "syntaxError (yyparse env (QMLScope sFileName (readFile env sFileName)))
           = Some (sText, iLine, iColumn)"
  shows "m_eError (parse_file env i ctx) = peSyntaxError"
    and "m_tErrorObject (parse_file env i ctx) = QMLAnalyzerError sFileName (iColumn, iLine) sText"
    and "m_vFiles (parse_file env i ctx) ! i =
           \<lparr>fileName = sFileName, parsed = True,
            fileContents = builtContents (yyparse env (QMLScope sFileName (readFile env sFileName))),
            symbolsSolved = True, referencesSolved = True, symbolUsagesSolved = True\<rparr>"
proof -
  let ?run = "yyparse env (QMLScope sFileName (readFile env sFileName))"
  let ?v = "m_vFiles (setContents sFileName (builtContents ?run) ctx)"
  have p: "parse_file env i ctx =
      ctx\<lparr>m_vFiles := ?v[i := resolved (?v ! i)], m_sScopes := [],
          m_eError := peSyntaxError,
          m_tErrorObject := QMLAnalyzerError sFileName (iColumn, iLine) sText\<rparr>"
    unfolding parse_file_unparsed [OF assms(2) assms(3) [symmetric] refl refl]
    by (simp add: assms(4))
  show "m_eError (parse_file env i ctx) = peSyntaxError"
    and "m_tErrorObject (parse_file env i ctx) = QMLAnalyzerError sFileName (iColumn, iLine) sText"
    by (simp_all add: p)
  have "?v ! i = (m_vFiles ctx ! i)\<lparr>fileContents := builtContents ?run\<rparr>"
    using assms(1,3) by (simp add: setContents_def)
  then have "resolved (?v ! i) =
      \<lparr>fileName = sFileName, parsed = True, fileContents = builtContents ?run,
       symbolsSolved = True, referencesSolved = True, symbolUsagesSolved = True\<rparr>"
    using assms(3)
    by (cases "m_vFiles ctx ! i")
       (simp add: resolved_def solveSymbols_def solveReferences_def solveSymbolUsages_def)
  moreover have "i < length ?v" using assms(1) by (simp add: setContents_files)
  ultimately show "m_vFiles (parse_file env i ctx) ! i =
           \<lparr>fileName = sFileName, parsed = True, fileContents = builtContents ?run,
            symbolsSolved = True, referencesSolved = True, symbolUsagesSolved = True\<rparr>"
    by (simp add: p)
qed

lemma parse_last_unparsed:
  assumes "m_vFiles ctx = vBefore @ pFile # vAfter"
    and "fileName pFile = sFileName"
    and "\<not> parsed pFile"
    and "\<forall>pLater \<in> set vAfter. parsed pLater"
    and "syntaxError (yyparse env (QMLScope sFileName (readFile env sFileName)))
           = Some (sText, iLine, iColumn)"
  shows "fst (parse env ctx) = peSyntaxError"
    and "m_tErrorObject (snd (parse env ctx)) = QMLAnalyzerError sFileName (iColumn, iLine) sText"
    and "m_vFiles (snd (parse env ctx)) ! length vBefore =
           \<lparr>fileName = sFileName, parsed = True,
            fileContents = builtContents (yyparse env (QMLScope sFileName (readFile env sFileName))),
            symbolsSolved = True, referencesSolved = True, symbolUsagesSolved = True\<rparr>"
proof -
  let ?i = "length vBefore"
  let ?n = "length vBefore + Suc (length vAfter)"
  let ?c0 = "ctx\<lparr>m_eError := peSuccess, m_tErrorObject := clearError\<rparr>"
  let ?cA = "fold (parse_file env) [0 ..< ?i] ?c0"
  let ?cB = "parse_file env ?i ?cA"
  have len0: "length (m_vFiles ?c0) = ?n" using assms(1) by simp
  have upt: "[0 ..< ?n] = [0 ..< ?i] @ ?i # [Suc ?i ..< ?n]"
    by (metis add_Suc_right le_add1 less_add_Suc1 upt_add_eq_append upt_conv_Cons zero_le
        add_0 upt_rec)
  have A: "length (m_vFiles ?cA) = ?n"
    "map fileName (m_vFiles ?cA) = map fileName (m_vFiles ?c0)"
    "\<And>k. ?i \<le> k \<Longrightarrow> k < ?n \<Longrightarrow> parsed (m_vFiles ?cA ! k) = parsed (m_vFiles ?c0 ! k)"
    using fold_parse_file_keeps [of "[0 ..< ?i]" ?c0 env] len0 by auto
  have i: "?i < length (m_vFiles ?cA)" using A(1) by simp
  have un: "\<not> parsed (m_vFiles ?cA ! ?i)"
    using A(3) [of ?i] assms(1,3) by simp
  have "fileName (m_vFiles ?cA ! ?i) = map fileName (m_vFiles ?cA) ! ?i"
    using i by simp
  then have nm: "fileName (m_vFiles ?cA ! ?i) = sFileName"
    unfolding A(2) using assms(1,2) by (simp add: nth_append)
  note B = parse_file_syntax_error [OF i un nm assms(5)]
  note kB = parse_file_keeps [OF i, where env = env]
  have later: "\<forall>j \<in> set [Suc ?i ..< ?n]. parsed (m_vFiles ?cB ! j)"
  proof
    fix j assume "j \<in> set [Suc ?i ..< ?n]"
    then have "Suc ?i \<le> j \<and> j < ?n" unfolding set_upt atLeastLessThan_iff .
    then have j: "?i < j" "j < ?n" by arith+
    then have "parsed (m_vFiles ?cB ! j) = parsed (m_vFiles ?cA ! j)"
      using kB(3) [of j] A(1) by simp
    also have "\<dots> = parsed (m_vFiles ?c0 ! j)" using A(3) [of j] j by simp
    also have "m_vFiles ?c0 ! j = vAfter ! (j - Suc ?i)"
      using assms(1) j by (simp add: nth_append nth_Cons')
    also have "parsed (vAfter ! (j - Suc ?i))"
      using assms(4) j by simp
    finally show "parsed (m_vFiles ?cB ! j)" .
  qed
  have "fold (parse_file env) [0 ..< ?n] ?c0 = fold (parse_file env) [Suc ?i ..< ?n] ?cB"
    unfolding upt by (simp only: fold_append fold_simps o_apply)
  also have "\<dots> = ?cB" by (rule fold_parse_file_parsed_list [OF later])
  finally have "fold (parse_file env) [0 ..< ?n] ?c0 = ?cB" .
  then have p: "parse env ctx = (m_eError ?cB, ?cB)"
    using len0 by (simp add: parse_def Let_def)
  show "fst (parse env ctx) = peSyntaxError"
    and "m_tErrorObject (snd (parse env ctx)) = QMLAnalyzerError sFileName (iColumn, iLine) sText"
    and "m_vFiles (snd (parse env ctx)) ! length vBefore =
           \<lparr>fileName = sFileName, parsed = True,
            fileContents = builtContents (yyparse env (QMLScope sFileName (readFile env sFileName))),
            symbolsSolved = True, referencesSolved = True, symbolUsagesSolved = True\<rparr>"
    unfolding p using B by simp_all
qed

text \<open>
  \<^verbatim>\<open>analyzeFile\<close> on a file on which the parser reports a syntax error, the file being
  the last one that this call of \<^verbatim>\<open>parse\<close> parses.
\<close>

lemma analyzeFile_syntax_error:
  assumes "m_vFiles (addFile sFileName (m_pContext this)) = vBefore @ pFile # vAfter"
    and "fileName pFile = sFileName"
    and "\<not> parsed pFile"
    and "\<forall>pLater \<in> set vAfter. parsed pLater"
    and "syntaxError (yyparse env (QMLScope sFileName (readFile env sFileName)))
           = Some (sText, iLine, iColumn)"
    and "this' = analyzeFile env sFileName this"
  shows "m_eError (m_pContext this') = peSyntaxError
       \<and> m_tErrorObject (m_pContext this') = QMLAnalyzerError sFileName (iColumn, iLine) sText
       \<and> m_vErrors this' = m_vErrors this @ [QMLAnalyzerError sFileName (iColumn, iLine) sText]
       \<and> m_lRewritten this' = m_lRewritten this
       \<and> m_vFiles (m_pContext this') ! length vBefore =
            \<lparr>fileName = sFileName, parsed = True,
             fileContents = builtContents (yyparse env (QMLScope sFileName (readFile env sFileName))),
             symbolsSolved = True, referencesSolved = True, symbolUsagesSolved = True\<rparr>"
proof -
  let ?ctx = "(addFile sFileName (m_pContext this))\<lparr>m_bIncludeImports := m_bIncludeImportsFlag this\<rparr>"
  have f: "m_vFiles ?ctx = vBefore @ pFile # vAfter" using assms(1) by simp
  note p = parse_last_unparsed [OF f assms(2,3,4,5)]
  obtain eError ctx' where r: "parse env ?ctx = (eError, ctx')" by (cases "parse env ?ctx")
  have e: "eError = peSyntaxError" using p(1) r by simp
  have m: "m_eError ctx' = peSyntaxError" using r e by (auto simp: parse_def Let_def)
  have "this' = this\<lparr>m_pContext := ctx', m_vErrors := m_vErrors this @ [m_tErrorObject ctx']\<rparr>"
    unfolding assms(6) analyzeFile_def Let_def r e by simp
  then show ?thesis using p(2,3) r m by simp
qed

text \<open>
  \<^verbatim>\<open>analyze\<close> begins with a new context, and only \<^verbatim>\<open>analyzeFile\<close> adds files to it: with
  imports not included \<^verbatim>\<open>parseImportFile\<close> does nothing, and the run of the parser adds
  no file. So in every call of \<^verbatim>\<open>analyzeFile\<close> that \<^verbatim>\<open>analyze\<close> makes on a file it has
  not met before, the file is new to the context and is added at its end: it is the last
  file parsed, and no unparsed file follows it.
\<close>

lemma addFile_new:
  assumes "\<forall>pFile \<in> set (m_vFiles ctx). fileName pFile \<noteq> sFileName"
  shows "m_vFiles (addFile sFileName ctx) = m_vFiles ctx @ [QMLFile sFileName]"
  using assms by (auto simp: addFile_def fileByFileName_def list_ex_iff)

lemma addFile_names:
  "fileName ` set (m_vFiles (addFile sFileName ctx)) = insert sFileName (fileName ` set (m_vFiles ctx))"
  by (auto simp: addFile_def fileByFileName_def list_ex_iff QMLFile_def)

lemma parse_names:
  "map fileName (m_vFiles (snd (parse env ctx))) = map fileName (m_vFiles ctx)"
proof -
  let ?c0 = "ctx\<lparr>m_eError := peSuccess, m_tErrorObject := clearError\<rparr>"
  have "map fileName (m_vFiles (fold (parse_file env) [0 ..< length (m_vFiles ?c0)] ?c0))
      = map fileName (m_vFiles ?c0)"
    using fold_parse_file_keeps [of "[0 ..< length (m_vFiles ?c0)]" ?c0 env] by simp
  then show ?thesis by (simp add: parse_def Let_def)
qed

lemma runGrammar_context: "m_pContext (runGrammar env sFileName pFile this) = m_pContext this"
proof -
  have "m_pContext (fold (\<lambda>pEntity this. runGrammar_Recurse env sFileName pEntity this) vEntities this)
      = m_pContext this" for vEntities
    by (induction vEntities arbitrary: this) (simp_all add: runGrammar_Recurse_result)
  then show ?thesis by (simp add: runGrammar_def)
qed

lemma analyzeFile_context:
  "m_pContext (analyzeFile env sFileName this) =
     snd (parse env ((addFile sFileName (m_pContext this))
        \<lparr>m_bIncludeImports := m_bIncludeImportsFlag this\<rparr>))"
  by (simp add: analyzeFile_def Let_def runGrammar_context split: prod.split)

lemma analyzeFile_names:
  "fileName ` set (m_vFiles (m_pContext (analyzeFile env sFileName this))) =
     insert sFileName (fileName ` set (m_vFiles (m_pContext this)))"
proof -
  let ?ctx = "(addFile sFileName (m_pContext this))\<lparr>m_bIncludeImports := m_bIncludeImportsFlag this\<rparr>"
  have "fileName ` set (m_vFiles (snd (parse env ?ctx))) = set (map fileName (m_vFiles (snd (parse env ?ctx))))"
    by simp
  also have "\<dots> = set (map fileName (m_vFiles ?ctx))" by (simp only: parse_names)
  also have "\<dots> = fileName ` set (m_vFiles (addFile sFileName (m_pContext this)))" by simp
  finally show ?thesis by (simp add: analyzeFile_context addFile_names)
qed

lemma analyze_Recurse_names:
  "fileName ` set (m_vFiles (m_pContext (analyze_Recurse env lFiles this))) =
     set lFiles \<union> fileName ` set (m_vFiles (m_pContext this))"
  unfolding analyze_Recurse_def
  by (induction lFiles arbitrary: this) (auto simp: analyzeFile_names)

lemma analyze_file_is_last:
  assumes "sFileName \<notin> set lDone"
    and "this = analyze env xGrammar lDone this0"
  shows "m_vFiles (addFile sFileName (m_pContext this)) =
           m_vFiles (m_pContext this) @ QMLFile sFileName # []"
    and "fileName (QMLFile sFileName) = sFileName"
    and "\<not> parsed (QMLFile sFileName)"
proof -
  have "fileName ` set (m_vFiles (m_pContext this)) = set lDone"
    unfolding assms(2) analyze_def analyze_Recurse_names
    by (simp add: analyze_begin_def QMLTreeContext_def)
  then have "\<forall>pFile \<in> set (m_vFiles (m_pContext this)). fileName pFile \<noteq> sFileName"
    using assms(1) by auto
  then show "m_vFiles (addFile sFileName (m_pContext this)) =
           m_vFiles (m_pContext this) @ QMLFile sFileName # []"
    by (simp add: addFile_new)
  show "fileName (QMLFile sFileName) = sFileName" "\<not> parsed (QMLFile sFileName)"
    by (simp_all add: QMLFile_def)
qed

lemma analyze_syntax_error:
  assumes "sFileName \<notin> set lDone"
    and "this = analyze env xGrammar lDone this0"
    and "syntaxError (yyparse env (QMLScope sFileName (readFile env sFileName)))
           = Some (sText, iLine, iColumn)"
  shows "m_tErrorObject (m_pContext (analyzeFile env sFileName this))
           = QMLAnalyzerError sFileName (iColumn, iLine) sText"
    and "m_vErrors (analyzeFile env sFileName this)
           = m_vErrors this @ [QMLAnalyzerError sFileName (iColumn, iLine) sText]"
    and "m_lRewritten (analyzeFile env sFileName this) = m_lRewritten this"
  using analyzeFile_syntax_error [OF analyze_file_is_last [OF assms(1,2)] _ assms(3) refl]
  by simp_all

text \<open>
  When an unparsed file follows in the context, \<^verbatim>\<open>parse\<close> goes on to it and returns its
  status: after the syntax error in \<open>a.qml\<close> the clean file \<open>c.qml\<close> leaves
  \<open>peSuccess\<close>, no entry for the syntax error is appended and the rule engine runs on
  what the parser built for \<open>a.qml\<close>.
\<close>

lemma later_file_status_wins:
  "map fileName (m_vFiles (m_pContext unparsedProject)) = [''a.qml'', ''c.qml'']
   \<and> map parsed (m_vFiles (m_pContext unparsedProject)) = [False, False]
   \<and> fst (parse projectEnvironment (m_pContext unparsedProject)) = peSuccess
   \<and> m_tErrorObject (snd (parse projectEnvironment (m_pContext unparsedProject)))
       = QMLAnalyzerError ''a.qml'' (7, 3) ''syntax error''
   \<and> m_vErrors (analyzeFile projectEnvironment ''a.qml'' unparsedProject)
       = [QMLAnalyzerError ''a.qml'' (4, 2) ''no color'']"
  by code_simp

text \<open>
  Claim C9, as amended. Let the parser report a syntax error on the file analyzed, and
  let the file be the last one that this call parses: in the context, after
  \<^verbatim>\<open>addFile\<close>, it is not parsed yet and every file after it is. That is so for every
  file new to the context, whatever files are before it, and so in every call that
  \<^verbatim>\<open>analyze\<close> makes with imports not included. Then \<open>analyzeFile\<close> leaves the error with the name of the file, the
  position and the text in the error object of the context, appends exactly this one
  entry to the list of errors of the analyzer, whatever the grammar and whatever the
  parser had built, and does not rewrite the file: the rule engine does not run. The
  file is not skipped by the resolver: the three passes have run on it and it is marked
  as parsed.
\<close>

theorem C9_syntax_error:
  assumes "m_vFiles (addFile sFileName (m_pContext this)) = vBefore @ pFile # vAfter"
    and "fileName pFile = sFileName"
    and "\<not> parsed pFile"
    and "\<forall>pLater \<in> set vAfter. parsed pLater"
    and "syntaxError (yyparse env (QMLScope sFileName (readFile env sFileName)))
           = Some (sText, iLine, iColumn)"
    and "this' = analyzeFile env sFileName this"
  shows "m_eError (m_pContext this') = peSyntaxError
       \<and> m_tErrorObject (m_pContext this') = QMLAnalyzerError sFileName (iColumn, iLine) sText
       \<and> m_vErrors this' = m_vErrors this @ [QMLAnalyzerError sFileName (iColumn, iLine) sText]
       \<and> m_lRewritten this' = m_lRewritten this
       \<and> m_vFiles (m_pContext this') ! length vBefore =
            \<lparr>fileName = sFileName, parsed = True,
             fileContents = builtContents (yyparse env (QMLScope sFileName (readFile env sFileName))),
             symbolsSolved = True, referencesSolved = True, symbolUsagesSolved = True\<rparr>"
  using assms by (rule analyzeFile_syntax_error)

text \<open>
  The theorem of C9 in the project: \<open>b.qml\<close> is parsed, \<open>c.qml\<close> is in the context and
  not parsed yet, \<open>a.qml\<close> is new. The rule that fired on \<open>b.qml\<close> would fire on what
  the parser built for \<open>a.qml\<close>; the only entry appended is the syntax error.
\<close>

theorem C9_syntax_error_witness:
  "m_vFiles (addFile ''a.qml'' (m_pContext analyzedProject)) =
     [\<lparr>fileName = ''b.qml'', parsed = True, fileContents = [colorAssignment],
       symbolsSolved = True, referencesSolved = True, symbolUsagesSolved = True\<rparr>,
      QMLFile ''c.qml''] @ QMLFile ''a.qml'' # []
   \<and> fileName (QMLFile ''a.qml'') = ''a.qml''
   \<and> \<not> parsed (QMLFile ''a.qml'')
   \<and> \<not> parsed (QMLFile ''c.qml'')
   \<and> yyparse projectEnvironment (QMLScope ''a.qml'' (readFile projectEnvironment ''a.qml''))
       = \<lparr>builtContents = [colorAssignment], syntaxError = Some (''syntax error'', 3, 7)\<rparr>
   \<and> m_vErrors analyzedProject = [QMLAnalyzerError ''b.qml'' (4, 2) ''no color'']
   \<and> m_tErrorObject (m_pContext (analyzeFile projectEnvironment ''a.qml'' analyzedProject))
       = QMLAnalyzerError ''a.qml'' (7, 3) ''syntax error''
   \<and> m_vErrors (analyzeFile projectEnvironment ''a.qml'' analyzedProject)
       = [QMLAnalyzerError ''b.qml'' (4, 2) ''no color'',
          QMLAnalyzerError ''a.qml'' (7, 3) ''syntax error'']
   \<and> m_vFiles (m_pContext (analyzeFile projectEnvironment ''a.qml'' analyzedProject)) ! 2
       = \<lparr>fileName = ''a.qml'', parsed = True, fileContents = [colorAssignment],
          symbolsSolved = True, referencesSolved = True, symbolUsagesSolved = True\<rparr>"
proof -
  have f: "m_vFiles (addFile ''a.qml'' (m_pContext analyzedProject)) =
     [\<lparr>fileName = ''b.qml'', parsed = True, fileContents = [colorAssignment],
       symbolsSolved = True, referencesSolved = True, symbolUsagesSolved = True\<rparr>,
      QMLFile ''c.qml''] @ QMLFile ''a.qml'' # []"
    by code_simp
  have n: "fileName (QMLFile ''a.qml'') = ''a.qml''" by (simp add: QMLFile_def)
  have u: "\<not> parsed (QMLFile ''a.qml'')" "\<not> parsed (QMLFile ''c.qml'')"
    by (simp_all add: QMLFile_def)
  have l: "\<forall>pLater \<in> set []. parsed pLater" by simp
  have y: "yyparse projectEnvironment (QMLScope ''a.qml'' (readFile projectEnvironment ''a.qml''))
       = \<lparr>builtContents = [colorAssignment], syntaxError = Some (''syntax error'', 3, 7)\<rparr>"
    by (simp add: projectEnvironment_def QMLScope_def)
  then have s: "syntaxError (yyparse projectEnvironment
      (QMLScope ''a.qml'' (readFile projectEnvironment ''a.qml''))) = Some (''syntax error'', 3, 7)"
    by simp
  have e: "m_vErrors analyzedProject = [QMLAnalyzerError ''b.qml'' (4, 2) ''no color'']"
    by code_simp
  from C9_syntax_error [OF f n u(1) l s refl] f n u y e show ?thesis
    by (simp add: numeral_2_eq_2)
qed

text \<open>
  Claim C9 as stated fails. For the resolver: after the syntax error the three passes
  have run on the file. For the entry and the rule engine: with the unparsed file
  \<open>c.qml\<close> after \<open>a.qml\<close> in the context, the status left is that of \<open>c.qml\<close>, no entry
  for the syntax error of \<open>a.qml\<close> is appended, and the rule engine runs on \<open>a.qml\<close>.
\<close>

theorem C9_resolver_runs_counterexample:
  "syntaxError (yyparse (exampleEnvironment failedRun)
      (QMLScope ''a.qml'' (readFile (exampleEnvironment failedRun) ''a.qml'')))
     = Some (''syntax error'', 3, 7)
   \<and> m_vErrors (analyzeFile (exampleEnvironment failedRun) ''a.qml'' (exampleAnalyzer []))
     = [QMLAnalyzerError ''a.qml'' (7, 3) ''syntax error'']
   \<and> symbolsSolved (fileNamed (m_pContext
        (analyzeFile (exampleEnvironment failedRun) ''a.qml'' (exampleAnalyzer []))) ''a.qml'')
   \<and> referencesSolved (fileNamed (m_pContext
        (analyzeFile (exampleEnvironment failedRun) ''a.qml'' (exampleAnalyzer []))) ''a.qml'')
   \<and> symbolUsagesSolved (fileNamed (m_pContext
        (analyzeFile (exampleEnvironment failedRun) ''a.qml'' (exampleAnalyzer []))) ''a.qml'')
   \<and> map fileName (m_vFiles (m_pContext unparsedProject)) = [''a.qml'', ''c.qml'']
   \<and> map parsed (m_vFiles (m_pContext unparsedProject)) = [False, False]
   \<and> m_vErrors unparsedProject = []
   \<and> syntaxError (yyparse projectEnvironment
        (QMLScope ''a.qml'' (readFile projectEnvironment ''a.qml'')))
     = Some (''syntax error'', 3, 7)
   \<and> m_eError (m_pContext (analyzeFile projectEnvironment ''a.qml'' unparsedProject)) = peSuccess
   \<and> m_vErrors (analyzeFile projectEnvironment ''a.qml'' unparsedProject)
     = [QMLAnalyzerError ''a.qml'' (4, 2) ''no color'']"
  by code_simp

subsection \<open>The lexer\<close>

text \<open>
  Reading characters: what \<^verbatim>\<open>getChar\<close> does on the text that is still unread. A
  character below code 128 is read as its code; the character of code 255, and no other,
  is read as \<open>EOF\<close>.
\<close>

lemma ord_not_EOF [simp]: "ord c \<noteq> EOF" "0 \<le> ord c"
  by (simp_all add: ord_def)

lemma ord_inject [simp]: "(ord c = ord d) = (c = d)"
  by (simp add: ord_def)

lemma toLatin1_ascii: "ord c < 128 \<Longrightarrow> toLatin1 c = ord c"
  by (simp add: toLatin1_def)

lemma ord_less_256: "ord c < 256"
proof -
  have "(of_char c :: nat) < 256" by simp
  then show ?thesis unfolding ord_def by linarith
qed

lemma toLatin1_negative: "\<not> ord c < 128 \<Longrightarrow> toLatin1 c < 0"
  using ord_less_256 [of c] by (simp add: toLatin1_def)

lemma toLatin1_eq_ord:
  assumes "ord d < 128"
  shows "(toLatin1 c = ord d) = (c = d)"
proof (cases "ord c < 128")
  case True
  then show ?thesis by (simp add: toLatin1_def ord_def)
next
  case False
  then have "toLatin1 c < 0" by (rule toLatin1_negative)
  moreover have "0 \<le> ord d" by (simp add: ord_def)
  ultimately have "toLatin1 c \<noteq> ord d" by linarith
  moreover have "c \<noteq> d" using False assms by auto
  ultimately show ?thesis by simp
qed

lemma toLatin1_EOF: "(toLatin1 c = EOF) = (c = CHR 0xFF)"
proof -
  have "(char_of (255 :: nat) :: char) = CHR 0xFF" by code_simp
  moreover have "char_of (of_char c :: nat) = c" by simp
  ultimately have "of_char c = (255 :: nat) \<Longrightarrow> c = CHR 0xFF" by metis
  then have e: "(ord c = 255) = (c = CHR 0xFF)"
    by (auto simp: ord_def)
  show ?thesis
  proof (cases "ord c < 128")
    case True
    then show ?thesis using e by (auto simp: toLatin1_def ord_def)
  next
    case False
    then show ?thesis using e by (auto simp: toLatin1_def)
  qed
qed

lemma drop_eq_ConsD:
  "drop n xs = c # cs \<Longrightarrow> n < length xs \<and> xs ! n = c \<and> drop (Suc n) xs = cs"
  by (metis Cons_nth_drop_Suc drop_eq_Nil2 leI list.discI list.inject)

lemma getChar_Cons:
  assumes "unread s = c # cs"
  shows "fst (getChar s) = toLatin1 c"
    and "unread (snd (getChar s)) = cs"
    and "m_iCommentLevel (snd (getChar s)) = m_iCommentLevel s"
proof -
  from assms have "m_iPos s < length (m_sStream s)" "m_sStream s ! m_iPos s = c"
    "drop (Suc (m_iPos s)) (m_sStream s) = cs"
    using drop_eq_ConsD [of "m_iPos s" "m_sStream s" c cs] by (simp_all add: unread_def)
  then show "fst (getChar s) = toLatin1 c" "unread (snd (getChar s)) = cs"
    "m_iCommentLevel (snd (getChar s)) = m_iCommentLevel s"
    by (simp_all add: getChar_def atEnd_def Let_def unread_def)
qed

lemma getChar_Nil:
  assumes "unread s = []"
  shows "getChar s = (EOF, s)"
  using assms by (simp add: getChar_def atEnd_def unread_def)


lemma getChar_ConsE:
  assumes "unread s = c # cs"
  obtains s' where "getChar s = (toLatin1 c, s')" "unread s' = cs"
    "m_iCommentLevel s' = m_iCommentLevel s" "s' = snd (getChar s)"
  using getChar_Cons [OF assms] by (cases "getChar s") auto

text \<open>
  The loop after \<^verbatim>\<open>[\<close>, \<^verbatim>\<open>while (1) { GET(d); if (d > ' ') { ... } }\<close>, leaves only on a
  character above the space. \<open>EOF\<close> is \<open>-1\<close>, so on a text of whites it is still
  running after any number of turns.
\<close>

lemma bracketLoop_white:
  "list_all (\<lambda>c. ord c \<le> ord CHR '' '') (unread s) \<Longrightarrow> bracketLoop n s = None"
proof (induction n arbitrary: s)
  case 0
  show ?case by simp
next
  case (Suc n)
  show ?case
  proof (cases "unread s")
    case Nil
    then show ?thesis using Suc by (simp add: getChar_Nil ord_def)
  next
    case (Cons c cs)
    then have w: "ord c \<le> ord CHR '' ''" "list_all (\<lambda>c. ord c \<le> ord CHR '' '') cs"
      using Suc.prems by simp_all
    from Cons obtain s' where g: "getChar s = (toLatin1 c, s')" "unread s' = cs"
      by (rule getChar_ConsE)
    have "toLatin1 c = ord c"
      using w(1) by (intro toLatin1_ascii) (simp add: ord_def)
    then have "bracketLoop (Suc n) s = bracketLoop n s'"
      using w(1) by (simp add: g)
    then show ?thesis using Suc.IH [of s'] w(2) g(2) by simp
  qed
qed

text \<open>
  Claim C10 fails: on a text that is \<^verbatim>\<open>[\<close> followed by whites only (or by nothing),
  \<^verbatim>\<open>parseNextToken\<close> has not returned after any number of turns of its loops.
\<close>

theorem C10_bracket_loop_never_returns:
  assumes "list_all (\<lambda>c. ord c \<le> ord CHR '' '') sWhite"
  shows "parseNextToken fuel LVAL (QMLScope sFileName (CHR ''['' # sWhite)) = None"
proof (cases fuel)
  case 0
  then show ?thesis by (simp add: parseNextToken_def)
next
  case (Suc n)
  let ?s0 = "(QMLScope sFileName (CHR ''['' # sWhite))"
  have skip: "skipWhites (Suc n) ?s0 = Some (Break, ?s0)"
    by (simp add: QMLScope_def getChar_def atEnd_def ungetChar_def toLatin1_def ord_def)
  have get: "getChar ?s0 = (ord CHR ''['', ?s0\<lparr>m_iPos := Suc 0, m_iColumn := 1\<rparr>)"
    by (simp add: QMLScope_def getChar_def atEnd_def toLatin1_def ord_def)
  have op: "scanOperator (ord CHR ''['') s = None" for s
    by (simp add: scanOperator_def ord_def)
  have un: "unread (STORE (ord CHR ''['') (?s0\<lparr>m_iPos := Suc 0, m_iColumn := 1\<rparr>)) = sWhite"
    by (simp add: unread_def STORE_def QMLScope_def)
  have reset: "?s0\<lparr>m_pCurrentTokenValue := [], m_iCommentLevel := 0, m_bParsingFloat := False,
      m_bParsingHexa := False\<rparr> = ?s0"
    by (simp add: QMLScope_def)
  have prev: "?s0\<lparr>m_iPreviousLine := m_iLine ?s0, m_iPreviousColumn := m_iColumn ?s0\<rparr> = ?s0"
    by (simp add: QMLScope_def)
  have bl: "bracketLoop (Suc n) (STORE (ord CHR ''['') (?s0\<lparr>m_iPos := Suc 0, m_iColumn := 1\<rparr>))
      = None"
    by (rule bracketLoop_white) (simp only: un assms)
  have scan: "scanToken (Suc n) LVAL (ord CHR ''['') (?s0\<lparr>m_iPos := Suc 0, m_iColumn := 1\<rparr>) = None"
    unfolding scanToken_def op bl by simp
  show ?thesis
    unfolding parseNextToken_def Let_def Suc reset skip
    by (simp add: prev get scan del: skipWhites.simps)
qed

text \<open>
  The theorem of C10 at the text \<^verbatim>\<open>[\<close> followed by two spaces.
\<close>

theorem C10_bracket_loop_never_returns_witness:
  "list_all (\<lambda>c. ord c \<le> ord CHR '' '') ''  ''
   \<and> parseNextToken 1000 NoValue (QMLScope ''a.qml'' ''[  '') = None"
  using C10_bracket_loop_never_returns [of "''  ''" 1000 NoValue "''a.qml''"]
  by (simp add: ord_def)

text \<open>
  The same happens in the first loop on the text \<^verbatim>\<open>/**\<close>: at the end of the text
  \<^verbatim>\<open>UNGET(d)\<close> of \<open>EOF\<close> moves the stream back before the last \<^verbatim>\<open>*\<close>, which is read again
  and again.
\<close>

lemma unterminated_comment_state:
  "skipWhites n (\<lparr>m_pFile = f, m_sStream = ''/**'', m_iPos = 2, m_iLine = 0, m_iColumn = 2,
      m_iPreviousLine = 0, m_iPreviousColumn = 0, m_iCommentLevel = 1, m_bParsingFloat = False,
      m_bParsingHexa = False, m_pCurrentTokenValue = [], m_eScopeError = peSuccess\<rparr>) = None"
  by (induction n) (simp_all add: getChar_def ungetChar_def atEnd_def toLatin1_def ord_def numeral_2_eq_2)

lemma unterminated_comment_never_returns:
  "parseNextToken fuel LVAL (QMLScope sFileName ''/**'') = None"
proof (cases fuel)
  case 0
  then show ?thesis by (simp add: parseNextToken_def)
next
  case (Suc n)
  have "skipWhites (Suc n) (QMLScope sFileName ''/**'') = None"
    using unterminated_comment_state [of n sFileName]
    by (simp add: QMLScope_def getChar_def atEnd_def toLatin1_def ord_def numeral_2_eq_2)
  then show ?thesis
    unfolding Suc parseNextToken_def Let_def
    by (simp add: QMLScope_def del: skipWhites.simps)
qed

text \<open>
  \<^verbatim>\<open>QString::toInt()\<close> reads base 10: a text with an \<open>x\<close> or \<open>X\<close> in it is no number, and
  the result is \<open>0\<close>.
\<close>

lemma in_dropWhile: "c \<in> set xs \<Longrightarrow> \<not> P c \<Longrightarrow> c \<in> set (dropWhile P xs)"
  by (induction xs) auto

lemma in_trimmed: "c \<in> set s \<Longrightarrow> \<not> isSpace c \<Longrightarrow> c \<in> set (trimmed s)"
  by (simp add: trimmed_def in_dropWhile)

lemma toInt_not_a_number:
  assumes "c \<in> set s" and "\<not> isSpace c" and "\<not> isDigitChar c"
    and "c \<noteq> CHR ''-''" and "c \<noteq> CHR ''+''"
  shows "toInt s = 0"
proof -
  let ?t = "trimmed s"
  let ?ds = "if ?t \<noteq> [] \<and> (hd ?t = CHR ''-'' \<or> hd ?t = CHR ''+'') then tl ?t else ?t"
  have t: "c \<in> set ?t" using assms(1,2) by (rule in_trimmed)
  then have "c \<in> set ?ds" using assms(4,5) by (cases ?t) auto
  then have "\<not> list_all isDigitChar ?ds" using assms(3) by (auto simp: list_all_iff)
  then show ?thesis by (simp add: toInt_def Let_def)
qed

lemma toInt_hex_text: "toInt (CHR ''0'' # CHR ''x'' # sText) = 0" "toInt (CHR ''0'' # CHR ''X'' # sText) = 0"
  by (rule toInt_not_a_number [where c = "CHR ''x''"], simp_all add: isSpace_def isDigitChar_def)
     (rule toInt_not_a_number [where c = "CHR ''X''"], simp_all add: isSpace_def isDigitChar_def)

lemma ungetChar_token [simp]:
  "m_pCurrentTokenValue (ungetChar c s) = m_pCurrentTokenValue s"
  "m_bParsingHexa (ungetChar c s) = m_bParsingHexa s"
  by (simp_all add: ungetChar_def Let_def)

lemma getChar_token [simp]:
  "m_pCurrentTokenValue (snd (getChar s)) = m_pCurrentTokenValue s"
  "m_bParsingHexa (snd (getChar s)) = m_bParsingHexa s"
  by (simp_all add: getChar_def Let_def)

lemma numberLoop_keeps:
  "m_bParsingHexa (numberLoop s) = m_bParsingHexa s
   \<and> (\<exists>sMore. m_pCurrentTokenValue (numberLoop s) = m_pCurrentTokenValue s @ sMore)"
proof (induction s rule: numberLoop.induct)
  case (1 s)
  obtain c s1 where g: "getChar s = (c, s1)" by (cases "getChar s")
  then have s1: "m_pCurrentTokenValue s1 = m_pCurrentTokenValue s" "m_bParsingHexa s1 = m_bParsingHexa s"
    using getChar_token [of s] by simp_all
  show ?case
  proof (cases "isdigit c")
    case True
    then have "numberLoop s = numberLoop (STORE c s1)"
      by (subst numberLoop.simps) (simp add: g)
    then show ?thesis using "1.IH"(1) [OF g [symmetric] True] s1
      by (auto simp: STORE_def)
  next
    case nd: False
    show ?thesis
    proof (cases "isHexLetter c")
      case True
      show ?thesis
      proof (cases "m_bParsingHexa s1")
        case h: True
        then have "numberLoop s = numberLoop (STORE c s1)"
          using nd True by (subst numberLoop.simps) (simp add: g)
        then show ?thesis using "1.IH"(2) [OF g [symmetric] nd True h] s1
          by (auto simp: STORE_def)
      next
        case False
        then have "numberLoop s = ungetChar c s1"
          using nd True by (subst numberLoop.simps) (simp add: g)
        then show ?thesis using s1 by simp
      qed
    next
      case nh: False
      show ?thesis
      proof (cases "c = ord CHR ''.'' \<and> \<not> m_bParsingFloat s1")
        case True
        then have "numberLoop s = numberLoop (STORE c (s1\<lparr>m_bParsingFloat := True\<rparr>))"
          using nd nh by (subst numberLoop.simps) (simp add: g)
        then show ?thesis using "1.IH"(3) [OF g [symmetric] nd nh] True s1
          by (auto simp: STORE_def)
      next
        case False
        then have "numberLoop s = ungetChar c s1"
          using nd nh by (subst numberLoop.simps) (auto simp: g)
        then show ?thesis using s1 by simp
      qed
    qed
  qed
qed

lemma parseNumber_hexa:
  assumes "m_bParsingHexa s"
    and "\<exists>sMore. m_pCurrentTokenValue s = CHR ''0'' # CHR ''x'' # sMore
                  \<or> m_pCurrentTokenValue s = CHR ''0'' # CHR ''X'' # sMore"
  shows "parseNumber LVAL s = (TOKEN_INTEGERCONSTANT, Integer 0, numberLoop s)
       \<or> parseNumber LVAL s =
            (TOKEN_REALCONSTANT, Real (m_pCurrentTokenValue (numberLoop s)), numberLoop s)"
proof -
  obtain sMore where m: "m_pCurrentTokenValue (numberLoop s) = m_pCurrentTokenValue s @ sMore"
    using numberLoop_keeps [of s] by blast
  from assms(2) m have "toInt (m_pCurrentTokenValue (numberLoop s)) = 0"
    by (auto simp: toInt_hex_text)
  then show ?thesis by (simp add: parseNumber_def Let_def)
qed

lemma char_of_ord [simp]: "char_of (ord c) = c"
  by (simp add: ord_def)

lemma STORE_ord: "STORE (ord c) s = s\<lparr>m_pCurrentTokenValue := m_pCurrentTokenValue s @ [c]\<rparr>"
  by (simp add: STORE_def)

lemma scanOperator_digit: "isdigit c \<Longrightarrow> scanOperator c s = None"
  by (auto simp: scanOperator_def isdigit_def ord_def)

text \<open>
  A text that starts with \<^verbatim>\<open>0x\<close> or \<^verbatim>\<open>0X\<close>: the token is an integer constant of value
  \<open>0\<close>, or a real constant when a \<^verbatim>\<open>.\<close> follows the digits.
\<close>

lemma hex_literal:
  assumes "x = CHR ''x'' \<or> x = CHR ''X''"
  shows "\<exists>s'. parseNextToken (Suc fuel) LVAL (QMLScope sFileName (CHR ''0'' # x # sRest))
            = Some (TOKEN_INTEGERCONSTANT, Integer 0, s')
          \<or> (\<exists>sReal. parseNextToken (Suc fuel) LVAL (QMLScope sFileName (CHR ''0'' # x # sRest))
            = Some (TOKEN_REALCONSTANT, Real sReal, s'))"
proof -
  let ?s0 = "QMLScope sFileName (CHR ''0'' # x # sRest)"
  have reset: "?s0\<lparr>m_pCurrentTokenValue := [], m_iCommentLevel := 0, m_bParsingFloat := False,
      m_bParsingHexa := False\<rparr> = ?s0"
    by (simp add: QMLScope_def)
  have skip: "skipWhites (Suc fuel) ?s0 = Some (Break, ?s0)"
    by (simp add: QMLScope_def getChar_def atEnd_def ungetChar_def toLatin1_def ord_def)
  have prev: "?s0\<lparr>m_iPreviousLine := m_iLine ?s0, m_iPreviousColumn := m_iColumn ?s0\<rparr> = ?s0"
    by (simp add: QMLScope_def)
  let ?s1 = "?s0\<lparr>m_iPos := Suc 0, m_iColumn := 1\<rparr>"
  have get: "getChar ?s0 = (ord CHR ''0'', ?s1)"
    by (simp add: QMLScope_def getChar_def atEnd_def toLatin1_def ord_def)
  let ?s2 = "?s0\<lparr>m_iPos := Suc (Suc 0), m_iColumn := 2\<rparr>"
  have get2: "getChar ?s1 = (ord x, ?s2)"
    using assms by (auto simp: QMLScope_def getChar_def atEnd_def toLatin1_def ord_def)
  let ?s3 = "(STORE (ord x) (STORE (ord CHR ''0'') ?s2))\<lparr>m_bParsingHexa := True\<rparr>"
  have scan: "scanToken (Suc fuel) LVAL (ord CHR ''0'') ?s1 = Some (parseNumber LVAL ?s3)"
    using assms
    by (auto simp: scanToken_def scanOperator_digit isdigit_def get2 simp del: bracketLoop.simps)
       (simp_all add: ord_def)
  have tok: "m_pCurrentTokenValue ?s3 = [CHR ''0'', x]" "m_bParsingHexa ?s3"
    by (simp_all add: STORE_ord QMLScope_def)
  have "parseNumber LVAL ?s3 = (TOKEN_INTEGERCONSTANT, Integer 0, numberLoop ?s3)
       \<or> parseNumber LVAL ?s3 =
            (TOKEN_REALCONSTANT, Real (m_pCurrentTokenValue (numberLoop ?s3)), numberLoop ?s3)"
    using assms tok by (intro parseNumber_hexa) auto
  moreover have "parseNextToken (Suc fuel) LVAL ?s0 = Some (parseNumber LVAL ?s3)"
    unfolding parseNextToken_def Let_def reset skip
    by (simp add: prev get scan del: skipWhites.simps)
  ultimately show ?thesis by auto
qed

text \<open>
  Claim C5 fails: the value of a hex literal is converted in base 10. Every text that
  starts with \<^verbatim>\<open>0x\<close> or \<^verbatim>\<open>0X\<close> gives an integer constant of value \<open>0\<close> (or a real constant),
  and \<^verbatim>\<open>0x1F\<close> gives the integer constant \<open>0\<close>, not \<open>31\<close>.
\<close>

theorem C5_hex_literal_value_is_zero:
  "(\<exists>s'. parseNextToken (Suc fuel) LVAL (QMLScope sFileName (''0x'' @ sRest))
            = Some (TOKEN_INTEGERCONSTANT, Integer 0, s')
          \<or> (\<exists>sReal. parseNextToken (Suc fuel) LVAL (QMLScope sFileName (''0x'' @ sRest))
            = Some (TOKEN_REALCONSTANT, Real sReal, s')))
   \<and> (\<exists>s'. parseNextToken (Suc fuel) LVAL (QMLScope sFileName (''0X'' @ sRest))
            = Some (TOKEN_INTEGERCONSTANT, Integer 0, s')
          \<or> (\<exists>sReal. parseNextToken (Suc fuel) LVAL (QMLScope sFileName (''0X'' @ sRest))
            = Some (TOKEN_REALCONSTANT, Real sReal, s')))
   \<and> parseNextToken 1 NoValue (QMLScope ''a.qml'' ''0x1F'')
        = Some (TOKEN_INTEGERCONSTANT, Integer 0,
            \<lparr>m_pFile = ''a.qml'', m_sStream = ''0x1F'', m_iPos = 3, m_iLine = 0,
             m_iColumn = 3, m_iPreviousLine = 0, m_iPreviousColumn = 0,
             m_iCommentLevel = 0, m_bParsingFloat = False, m_bParsingHexa = True,
             m_pCurrentTokenValue = ''0x1F'', m_eScopeError = peSuccess\<rparr>)"
proof (intro conjI)
  show "\<exists>s'. parseNextToken (Suc fuel) LVAL (QMLScope sFileName (''0x'' @ sRest))
            = Some (TOKEN_INTEGERCONSTANT, Integer 0, s')
          \<or> (\<exists>sReal. parseNextToken (Suc fuel) LVAL (QMLScope sFileName (''0x'' @ sRest))
            = Some (TOKEN_REALCONSTANT, Real sReal, s'))"
    using hex_literal [of "CHR ''x''" fuel LVAL sFileName sRest] by simp
  show "\<exists>s'. parseNextToken (Suc fuel) LVAL (QMLScope sFileName (''0X'' @ sRest))
            = Some (TOKEN_INTEGERCONSTANT, Integer 0, s')
          \<or> (\<exists>sReal. parseNextToken (Suc fuel) LVAL (QMLScope sFileName (''0X'' @ sRest))
            = Some (TOKEN_REALCONSTANT, Real sReal, s'))"
    using hex_literal [of "CHR ''X''" fuel LVAL sFileName sRest] by simp
  show "parseNextToken 1 NoValue (QMLScope ''a.qml'' ''0x1F'')
        = Some (TOKEN_INTEGERCONSTANT, Integer 0,
            \<lparr>m_pFile = ''a.qml'', m_sStream = ''0x1F'', m_iPos = 3, m_iLine = 0,
             m_iColumn = 3, m_iPreviousLine = 0, m_iPreviousColumn = 0,
             m_iCommentLevel = 0, m_bParsingFloat = False, m_bParsingHexa = True,
             m_pCurrentTokenValue = ''0x1F'', m_eScopeError = peSuccess\<rparr>)"
    by code_simp
qed

text \<open>
  Inside a block comment the loop of \<^verbatim>\<open>parseNextToken\<close> looks for \<^verbatim>\<open>*/\<close> only: the test
  for \<^verbatim>\<open>/*\<close> is in the branch of comment level \<open>0\<close>.
\<close>

lemma getChar_ungetChar:
  assumes "unread s = c # cs" and "getChar s = (toLatin1 c, s')"
  shows "getChar (ungetChar (toLatin1 c) s') = (toLatin1 c, s')"
    and "unread (ungetChar (toLatin1 c) s') = c # cs"
    and "m_iCommentLevel (ungetChar (toLatin1 c) s') = m_iCommentLevel s"
proof -
  from assms(1) have p: "m_iPos s < length (m_sStream s)" "m_sStream s ! m_iPos s = c"
    using drop_eq_ConsD [of "m_iPos s" "m_sStream s" c cs] by (simp_all add: unread_def)
  from assms(2) p have s': "s' = snd (getChar s)" by simp
  show "getChar (ungetChar (toLatin1 c) s') = (toLatin1 c, s')"
    using p unfolding s'
    by (simp add: getChar_def ungetChar_def atEnd_def Let_def)
  show "unread (ungetChar (toLatin1 c) s') = c # cs"
    using p assms(1) unfolding s'
    by (simp add: getChar_def ungetChar_def atEnd_def Let_def unread_def)
  show "m_iCommentLevel (ungetChar (toLatin1 c) s') = m_iCommentLevel s"
    using p unfolding s'
    by (simp add: getChar_def ungetChar_def atEnd_def Let_def)
qed

lemma ascii_consts [simp]:
  "ord CHR ''*'' < 128" "ord CHR ''/'' < 128"
  by (simp_all add: ord_def)

lemma toLatin1_consts [simp]:
  "toLatin1 CHR ''*'' = ord CHR ''*''" "toLatin1 CHR ''/'' = ord CHR ''/''"
  by (simp_all add: toLatin1_ascii)

lemma skipWhites_in_comment:
  assumes "m_iCommentLevel s = 1"
    and "unread s = sBody @ ''*/'' @ sRest"
    and "\<not> contains sBody ''*/''"
    and "CHR 0xFF \<notin> set sBody"
  shows "skipWhites (Suc (length sBody) + fuel) s =
           skipWhites fuel ((readOver (length sBody + 2) s)\<lparr>m_iCommentLevel := 0\<rparr>)"
  using assms
proof (induction sBody arbitrary: s)
  case Nil
  then have u: "unread s = CHR ''*'' # CHR ''/'' # sRest" by simp
  from u obtain s1 where g1: "getChar s = (toLatin1 CHR ''*'', s1)" "unread s1 = CHR ''/'' # sRest"
    "m_iCommentLevel s1 = m_iCommentLevel s" "s1 = snd (getChar s)"
    by (rule getChar_ConsE)
  from g1(2) obtain s2 where g2: "getChar s1 = (toLatin1 CHR ''/'', s2)"
    "m_iCommentLevel s2 = m_iCommentLevel s1" "s2 = snd (getChar s1)"
    by (rule getChar_ConsE)
  have "readOver 2 s = s2" using g1(4) g2(3) by (simp add: numeral_2_eq_2)
  then show ?case using Nil(1) g1(1,3) g2(1,2) by simp
next
  case (Cons b bs)
  then have u: "unread s = b # (bs @ ''*/'' @ sRest)" by simp
  from u obtain s1 where g1: "getChar s = (toLatin1 b, s1)" "unread s1 = bs @ ''*/'' @ sRest"
    "m_iCommentLevel s1 = m_iCommentLevel s" "s1 = snd (getChar s)"
    by (rule getChar_ConsE)
  have nb: "\<not> contains bs ''*/''" and ns: "\<not> startsWith (b # bs) ''*/''"
    using Cons.prems(3) by simp_all
  have nf: "CHR 0xFF \<notin> set bs" and be: "toLatin1 b \<noteq> EOF"
    using Cons.prems(4) by (auto simp: toLatin1_EOF)
  have lvl: "m_iCommentLevel s1 = 1" using g1(3) Cons.prems(1) by simp
  have ro: "readOver (length (b # bs) + 2) s = readOver (length bs + 2) s1"
    using g1(4) by simp
  show ?case
  proof (cases "b = CHR ''*''")
    case False
    then have "toLatin1 b \<noteq> ord CHR ''*''" by (simp add: toLatin1_eq_ord)
    then have "skipWhites (Suc (length (b # bs)) + fuel) s = skipWhites (Suc (length bs) + fuel) s1"
      using g1(1) lvl be by simp
    then show ?thesis using Cons.IH [OF lvl g1(2) nb nf] ro by simp
  next
    case True
    obtain d ds where dd: "bs @ ''*/'' @ sRest = d # ds" by (cases bs) auto
    have dn: "d \<noteq> CHR ''/''" using dd ns True by (cases bs) auto
    then have dn': "toLatin1 d \<noteq> ord CHR ''/''" by (simp add: toLatin1_eq_ord)
    from g1(2) dd obtain s2 where g2: "getChar s1 = (toLatin1 d, s2)" "s2 = snd (getChar s1)"
      using getChar_ConsE [of s1 d ds] by metis
    let ?s1' = "ungetChar (toLatin1 d) s2"
    have ug: "getChar ?s1' = (toLatin1 d, s2)" "unread ?s1' = d # ds" "m_iCommentLevel ?s1' = 1"
      using getChar_ungetChar [of s1 d ds s2] g1(2) dd g2(1) lvl by simp_all
    have step: "skipWhites (Suc (length (b # bs)) + fuel) s = skipWhites (Suc (length bs) + fuel) ?s1'"
      using g1(1) lvl True g2(1) dn' by simp
    have "readOver (length bs + 2) ?s1' = readOver (length bs + 2) s1"
      using ug(1) g2(1) by simp
    then show ?thesis
      using Cons.IH [of ?s1'] ug(2,3) dd nb nf ro step by simp
  qed
qed

lemma readOver_level [simp]: "m_iCommentLevel (readOver n s) = m_iCommentLevel s"
  by (induction n arbitrary: s) (simp_all add: getChar_def Let_def)

lemma getChar_update:
  "getChar (s\<lparr>m_iCommentLevel := l\<rparr>)
     = (fst (getChar s), (snd (getChar s))\<lparr>m_iCommentLevel := l\<rparr>)"
  "getChar (s\<lparr>m_pCurrentTokenValue := v\<rparr>)
     = (fst (getChar s), (snd (getChar s))\<lparr>m_pCurrentTokenValue := v\<rparr>)"
  "getChar (s\<lparr>m_bParsingFloat := b\<rparr>)
     = (fst (getChar s), (snd (getChar s))\<lparr>m_bParsingFloat := b\<rparr>)"
  "getChar (s\<lparr>m_bParsingHexa := b\<rparr>)
     = (fst (getChar s), (snd (getChar s))\<lparr>m_bParsingHexa := b\<rparr>)"
  by (simp_all add: getChar_def Let_def atEnd_def)

lemma readOver_update:
  "readOver n (s\<lparr>m_iCommentLevel := l\<rparr>) = (readOver n s)\<lparr>m_iCommentLevel := l\<rparr>"
  "readOver n (s\<lparr>m_pCurrentTokenValue := v\<rparr>) = (readOver n s)\<lparr>m_pCurrentTokenValue := v\<rparr>"
  "readOver n (s\<lparr>m_bParsingFloat := b\<rparr>) = (readOver n s)\<lparr>m_bParsingFloat := b\<rparr>"
  "readOver n (s\<lparr>m_bParsingHexa := b\<rparr>) = (readOver n s)\<lparr>m_bParsingHexa := b\<rparr>"
  by (induction n arbitrary: s; simp add: getChar_update)+

lemma level_update_same: "m_iCommentLevel t = l \<Longrightarrow> t\<lparr>m_iCommentLevel := l\<rparr> = t"
  by (cases t) simp

lemma skipWhites_block_comment:
  assumes "m_iCommentLevel s = 0"
    and "unread s = ''/*'' @ sBody @ ''*/'' @ sRest"
    and "\<not> contains sBody ''*/''"
    and "CHR 0xFF \<notin> set sBody"
  shows "skipWhites (length sBody + 2 + fuel) s = skipWhites fuel (readOver (length sBody + 4) s)"
proof -
  from assms(2) have u: "unread s = CHR ''/'' # CHR ''*'' # (sBody @ ''*/'' @ sRest)" by simp
  from u obtain s1 where g1: "getChar s = (toLatin1 CHR ''/'', s1)"
    "unread s1 = CHR ''*'' # (sBody @ ''*/'' @ sRest)"
    "m_iCommentLevel s1 = m_iCommentLevel s" "s1 = snd (getChar s)"
    by (rule getChar_ConsE)
  from g1(2) obtain s2 where g2: "getChar s1 = (toLatin1 CHR ''*'', s2)"
    "unread s2 = sBody @ ''*/'' @ sRest"
    "m_iCommentLevel s2 = m_iCommentLevel s1" "s2 = snd (getChar s1)"
    by (rule getChar_ConsE)
  let ?s3 = "s2\<lparr>m_iCommentLevel := 1\<rparr>"
  have l0: "m_iCommentLevel s2 = 0" using g1(3) g2(3) assms(1) by simp
  have "skipWhites (length sBody + 2 + fuel) s = skipWhites (Suc (length sBody) + fuel) ?s3"
    using g1(1) g2(1) assms(1) g1(3) l0 by simp
  also have "\<dots> = skipWhites fuel ((readOver (length sBody + 2) ?s3)\<lparr>m_iCommentLevel := 0\<rparr>)"
    using g2(2) assms(3,4) by (intro skipWhites_in_comment) (simp_all add: unread_def)
  also have "(readOver (length sBody + 2) ?s3)\<lparr>m_iCommentLevel := 0\<rparr>
      = readOver (length sBody + 2) s2"
  proof -
    have "(readOver (length sBody + 2) s2)\<lparr>m_iCommentLevel := 0\<rparr> = readOver (length sBody + 2) s2"
      by (intro level_update_same) (simp only: readOver_level l0)
    then show ?thesis by (simp add: readOver_update)
  qed
  also have "readOver (length sBody + 2) s2 = readOver (length sBody + 4) s"
    using g1(4) g2(4) by (simp add: numeral_eq_Suc)
  finally show ?thesis .
qed

lemma bracketLoop_more_fuel:
  "bracketLoop fuel s = Some r \<Longrightarrow> bracketLoop (k + fuel) s = Some r"
proof (induction fuel arbitrary: s)
  case 0
  then show ?case by simp
next
  case (Suc fuel)
  obtain d s1 where g: "getChar s = (d, s1)" by (cases "getChar s")
  show ?case
  proof (cases "d > ord CHR '' ''")
    case True
    then show ?thesis using Suc.prems g by simp
  next
    case False
    then have "bracketLoop fuel s1 = Some r" using Suc.prems g by simp
    then have "bracketLoop (k + fuel) s1 = Some r" by (rule Suc.IH)
    then show ?thesis using False g by simp
  qed
qed

lemma scanOperator_bracket: "scanOperator (ord CHR ''['') s = None"
  by (simp add: scanOperator_def ord_def)

lemma scanToken_more_fuel:
  assumes "scanToken fuel LVAL c s = Some r"
  shows "scanToken (k + fuel) LVAL c s = Some r"
proof (cases "c = ord CHR ''[''")
  case True
  have eq: "scanToken n LVAL c s =
      (case bracketLoop n (STORE c s) of
         None \<Rightarrow> None
       | Some (True, s) \<Rightarrow> Some (TOKEN_DIMENSION, LVAL, s)
       | Some (False, s) \<Rightarrow> Some (c, LVAL, s))" for n
    unfolding True by (simp add: scanToken_def scanOperator_bracket)
  from assms obtain x where "bracketLoop fuel (STORE c s) = Some x"
    by (auto simp: eq split: option.splits)
  then show ?thesis
    using assms bracketLoop_more_fuel [of fuel "STORE c s" x k] by (simp add: eq)
next
  case False
  then have "scanToken (k + fuel) LVAL c s = scanToken fuel LVAL c s"
    by (cases "scanOperator c s") (simp_all add: scanToken_def)
  then show ?thesis using assms by simp
qed

lemma unread_update [simp]:
  "unread (s\<lparr>m_pCurrentTokenValue := v\<rparr>) = unread s"
  "unread (s\<lparr>m_iCommentLevel := l\<rparr>) = unread s"
  "unread (s\<lparr>m_bParsingFloat := b\<rparr>) = unread s"
  "unread (s\<lparr>m_bParsingHexa := b\<rparr>) = unread s"
  by (simp_all add: unread_def)

text \<open>
  The character of code 255 is read as \<open>EOF\<close>, inside a comment as anywhere: the lexer
  returns 0 there, the comment still open.
\<close>

lemma comment_with_code_255:
  "parseNextToken 10 NoValue (QMLScope ''a.qml'' (''/*'' @ [CHR 0xFF] @ ''*/ c''))
     = Some (0, NoValue,
         \<lparr>m_pFile = ''a.qml'', m_sStream = ''/*'' @ [CHR 0xFF] @ ''*/ c'', m_iPos = 3,
          m_iLine = 0, m_iColumn = 3, m_iPreviousLine = 0, m_iPreviousColumn = 0,
          m_iCommentLevel = 1, m_bParsingFloat = False, m_bParsingHexa = False,
          m_pCurrentTokenValue = [], m_eScopeError = peSuccess\<rparr>)"
  by code_simp

text \<open>
  Claim C4, amended: block comments do not nest. A comment \<^verbatim>\<open>/*\<close> \<open>sBody\<close> \<^verbatim>\<open>*/\<close>, where
  \<open>sBody\<close> has no \<^verbatim>\<open>*/\<close> in it (it may have \<^verbatim>\<open>/*\<close>) and no character of code 255, is
  skipped up to its first \<^verbatim>\<open>*/\<close>: the token returned is the token of the text after that
  \<^verbatim>\<open>*/\<close>.
\<close>

theorem C4_comment_ends_at_first_close:
  assumes "unread s = ''/*'' @ sBody @ ''*/'' @ sRest"
    and "\<not> contains sBody ''*/''"
    and "CHR 0xFF \<notin> set sBody"
    and "parseNextToken fuel LVAL (readOver (length sBody + 4) s) = Some r"
  shows "parseNextToken (length sBody + 2 + fuel) LVAL s = Some r"
proof -
  let ?R = "\<lambda>s. s\<lparr>m_pCurrentTokenValue := [], m_iCommentLevel := 0, m_bParsingFloat := False,
      m_bParsingHexa := False\<rparr>"
  have skip: "skipWhites (length sBody + 2 + fuel) (?R s)
      = skipWhites fuel (?R (readOver (length sBody + 4) s))"
    using assms(1,2,3) skipWhites_block_comment [of "?R s" sBody sRest fuel]
    by (simp add: readOver_update)
  show ?thesis
  proof (cases "skipWhites fuel (?R (readOver (length sBody + 4) s))")
    case None
    then show ?thesis using assms(4) by (simp add: parseNextToken_def)
  next
    case (Some x)
    obtain e s1 where x: "x = (e, s1)" by (cases x)
    show ?thesis
    proof (cases e)
      case Return0
      then show ?thesis
        using assms(4) Some x skip by (simp add: parseNextToken_def del: skipWhites.simps)
    next
      case Break
      let ?s2 = "s1\<lparr>m_iPreviousLine := m_iLine s1, m_iPreviousColumn := m_iColumn s1\<rparr>"
      obtain c s3 where g: "getChar ?s2 = (c, s3)" by (cases "getChar ?s2")
      have l: "parseNextToken (length sBody + 2 + fuel) LVAL s =
          (if c = EOF then Some (0, LVAL, s3) else scanToken (length sBody + 2 + fuel) LVAL c s3)"
        using Some x skip Break g by (simp add: parseNextToken_def del: skipWhites.simps)
      have r: "parseNextToken fuel LVAL (readOver (length sBody + 4) s) =
          (if c = EOF then Some (0, LVAL, s3) else scanToken fuel LVAL c s3)"
        using Some x Break g by (simp add: parseNextToken_def del: skipWhites.simps)
      show ?thesis
        using assms(4) scanToken_more_fuel [of fuel LVAL c s3 r "length sBody + 2"]
        unfolding l r by (simp split: if_splits)
    qed
  qed
qed

text \<open>
  The theorem of C4 at the text \<^verbatim>\<open>/* a /* b */ c */\<close>: the comment ends at the first
  \<^verbatim>\<open>*/\<close> and the token is the identifier \<open>c\<close>.
\<close>

theorem C4_comment_ends_at_first_close_witness:
  "unread (QMLScope ''a.qml'' ''/* a /* b */ c */'') = ''/*'' @ '' a /* b '' @ ''*/'' @ '' c */''
   \<and> \<not> contains '' a /* b '' ''*/''
   \<and> CHR 0xFF \<notin> set '' a /* b ''
   \<and> parseNextToken 2 NoValue (readOver (length '' a /* b '' + 4) (QMLScope ''a.qml'' ''/* a /* b */ c */''))
        = Some (TOKEN_IDENTIFIER, String ''c'',
            \<lparr>m_pFile = ''a.qml'', m_sStream = ''/* a /* b */ c */'', m_iPos = 14,
             m_iLine = 0, m_iColumn = 14, m_iPreviousLine = 0, m_iPreviousColumn = 13,
             m_iCommentLevel = 0, m_bParsingFloat = False, m_bParsingHexa = False,
             m_pCurrentTokenValue = ''c'', m_eScopeError = peSuccess\<rparr>)
   \<and> parseNextToken (length '' a /* b '' + 2 + 2) NoValue (QMLScope ''a.qml'' ''/* a /* b */ c */'')
        = Some (TOKEN_IDENTIFIER, String ''c'',
            \<lparr>m_pFile = ''a.qml'', m_sStream = ''/* a /* b */ c */'', m_iPos = 14,
             m_iLine = 0, m_iColumn = 14, m_iPreviousLine = 0, m_iPreviousColumn = 13,
             m_iCommentLevel = 0, m_bParsingFloat = False, m_bParsingHexa = False,
             m_pCurrentTokenValue = ''c'', m_eScopeError = peSuccess\<rparr>)"
proof -
  have a: "unread (QMLScope ''a.qml'' ''/* a /* b */ c */'')
      = ''/*'' @ '' a /* b '' @ ''*/'' @ '' c */''"
    by code_simp
  have b: "\<not> contains '' a /* b '' ''*/''"
    by code_simp
  have f: "CHR 0xFF \<notin> set '' a /* b ''"
    by simp
  have c: "parseNextToken 2 NoValue
        (readOver (length '' a /* b '' + 4) (QMLScope ''a.qml'' ''/* a /* b */ c */''))
        = Some (TOKEN_IDENTIFIER, String ''c'',
            \<lparr>m_pFile = ''a.qml'', m_sStream = ''/* a /* b */ c */'', m_iPos = 14,
             m_iLine = 0, m_iColumn = 14, m_iPreviousLine = 0, m_iPreviousColumn = 13,
             m_iCommentLevel = 0, m_bParsingFloat = False, m_bParsingHexa = False,
             m_pCurrentTokenValue = ''c'', m_eScopeError = peSuccess\<rparr>)"
    by code_simp
  from C4_comment_ends_at_first_close [OF a b f c] a b f c show ?thesis
    by (intro conjI)
qed

text \<open>
  Claim C4 as stated fails: the text \<^verbatim>\<open>/* a /* b */ c */\<close> is not consumed as one comment.
  The token returned is the identifier \<open>c\<close> of column 13, before the second \<^verbatim>\<open>*/\<close>.
\<close>

theorem C4_nested_comment_counterexample:
  "parseNextToken 13 NoValue (QMLScope ''a.qml'' ''/* a /* b */ c */'')
     = Some (TOKEN_IDENTIFIER, String ''c'',
         \<lparr>m_pFile = ''a.qml'', m_sStream = ''/* a /* b */ c */'', m_iPos = 14,
          m_iLine = 0, m_iColumn = 14, m_iPreviousLine = 0, m_iPreviousColumn = 13,
          m_iCommentLevel = 0, m_bParsingFloat = False, m_bParsingHexa = False,
          m_pCurrentTokenValue = ''c'', m_eScopeError = peSuccess\<rparr>)"
  by code_simp

end
